theory Spec2Isabelle
  imports Complex_Main
begin

section \<open>Duration codec\<close>

text \<open>
  \<^verbatim>\<open>parseDuration\<close> of \<^verbatim>\<open>src/app/api/playlist/route.ts\<close> searches its argument with the
  unanchored regular expression \<^verbatim>\<open>PT(?:([0-9]+)H)?(?:([0-9]+)M)?(?:([0-9]+)S)?\<close> (the
  source writes the digit class with its escape, which is the ASCII digits). Every part after
  the literal \<^verbatim>\<open>PT\<close> is optional, so the search succeeds at the leftmost occurrence of
  \<^verbatim>\<open>PT\<close> and fails only when there is none (\<open>find_PT\<close>). Each optional group is greedy:
  it takes the longest run of ASCII digits and needs the unit letter right after it; with
  fewer digits the next character is a digit, so backtracking never gives another match
  (\<open>component\<close>). JavaScript numbers are modelled as unbounded naturals, which is exact
  below \<open>2 ^ 53\<close>.
\<close>

definition is_digit :: "char \<Rightarrow> bool" where
  "is_digit c = (48 \<le> (of_char c :: nat) \<and> (of_char c :: nat) \<le> 57)"

definition digit_value :: "char \<Rightarrow> nat" where
  "digit_value c = of_char c - 48"

text \<open>\<^verbatim>\<open>parseInt(ds, 10)\<close> on a string of decimal digits.\<close>

definition parseInt :: "string \<Rightarrow> nat" where
  "parseInt ds = foldl (\<lambda>acc c. 10 * acc + digit_value c) 0 ds"

fun find_PT :: "string \<Rightarrow> string option" where
  "find_PT (a # b # cs) = (if a = CHR ''P'' \<and> b = CHR ''T'' then Some cs else find_PT (b # cs))"
| "find_PT _ = None"

definition component :: "char \<Rightarrow> string \<Rightarrow> string option \<times> string" where
  "component unit s =
     (let ds = takeWhile is_digit s; r = dropWhile is_digit s
      in if ds \<noteq> [] \<and> r \<noteq> [] \<and> hd r = unit then (Some ds, tl r) else (None, s))"

text \<open>\<^verbatim>\<open>v || d\<close> for an optional string: an absent or empty \<open>v\<close> is falsy.\<close>

definition js_or :: "string option \<Rightarrow> string \<Rightarrow> string" where
  "js_or v d = (case v of None \<Rightarrow> d | Some s \<Rightarrow> if s = [] then d else s)"

definition parseDuration :: "string \<Rightarrow> nat" where
  "parseDuration duration =
     (case find_PT duration of
        None \<Rightarrow> 0
      | Some r0 \<Rightarrow>
          (let (h, r1) = component (CHR ''H'') r0;
               (m, r2) = component (CHR ''M'') r1;
               (s, r3) = component (CHR ''S'') r2;
               hours = parseInt (js_or h ''0'');
               minutes = parseInt (js_or m ''0'');
               seconds = parseInt (js_or s ''0'')
           in hours * 3600 + minutes * 60 + seconds))"





section \<open>Playlist identifier extractor\<close>

text \<open>
  \<^verbatim>\<open>extractPlaylistId\<close> searches the URL with
  \<^verbatim>\<open>(?:youtube.com/playlist?list=|youtu.be/playlist?list=)([a-zA-Z0-9_-]+)\<close>, in which
  the dots, slashes and question marks of the two prefixes are literal characters.
  \<open>match_at\<close> is the expression anchored at the start of its argument (first alternative
  first, then the greedy capture, which must be non-empty); the search tries every
  position from the left.
\<close>

definition id_char :: "char \<Rightarrow> bool" where
  "id_char c =
     (let n = (of_char c :: nat)
      in (97 \<le> n \<and> n \<le> 122) \<or> (65 \<le> n \<and> n \<le> 90) \<or> (48 \<le> n \<and> n \<le> 57)
         \<or> c = CHR ''_'' \<or> c = CHR ''-'')"

definition youtube_com :: string where
  "youtube_com = ''youtube.com/playlist?list=''"

definition youtu_be :: string where
  "youtu_be = ''youtu.be/playlist?list=''"

definition starts_with :: "string \<Rightarrow> string \<Rightarrow> bool" where
  "starts_with p s = (take (length p) s = p)"

definition capture_id :: "string \<Rightarrow> string option" where
  "capture_id r = (let v = takeWhile id_char r in if v = [] then None else Some v)"

definition match_at :: "string \<Rightarrow> string option" where
  "match_at s =
     (case (if starts_with youtube_com s then capture_id (drop (length youtube_com) s) else None) of
        Some v \<Rightarrow> Some v
      | None \<Rightarrow> (if starts_with youtu_be s then capture_id (drop (length youtu_be) s) else None))"

fun extractPlaylistId :: "string \<Rightarrow> string option" where
  "extractPlaylistId [] = match_at []"
| "extractPlaylistId (c # cs) =
     (case match_at (c # cs) of Some v \<Rightarrow> Some v | None \<Rightarrow> extractPlaylistId cs)"

fun occurs_in :: "string \<Rightarrow> string \<Rightarrow> bool" where
  "occurs_in p [] = starts_with p []"
| "occurs_in p (c # cs) = (starts_with p (c # cs) \<or> occurs_in p cs)"

section \<open>Data model and the catalog service\<close>

text \<open>
  The interfaces of \<^verbatim>\<open>route.ts\<close>, with nested fields flattened into one record each.
  \<open>PlaylistsResponse\<close> is the body of the playlist-title lookup: \<open>playlist_titles\<close> is
  \<^verbatim>\<open>items\<close> (which may be absent), each item reduced to its \<^verbatim>\<open>snippet.title\<close>.
\<close>

record PlaylistItem =
  snippet_title :: string
  snippet_resourceId_videoId :: string

record VideoItem =
  item_id :: string
  item_snippet_title :: string
  contentDetails_duration :: string

record PlaylistResponse =
  items :: "PlaylistItem list"
  nextPageToken :: "string option"

record VideosResponse =
  video_items :: "VideoItem list"

record PlaylistsResponse =
  playlist_titles :: "string list option"

text \<open>
  What one \<^verbatim>\<open>fetch\<close> followed by \<^verbatim>\<open>response.json()\<close> can give: an exception with its
  message (the request or the decoding of the body failed), a response whose \<^verbatim>\<open>ok\<close> is
  false together with \<^verbatim>\<open>errorData.error?.message\<close>, or the decoded body.
\<close>

datatype 'a response = Throws string | NotOk "string option" | Ok 'a

text \<open>
  The three requests the handler sends, with the query parameters it sets:
  \<^verbatim>\<open>playlistId\<close>, \<^verbatim>\<open>maxResults\<close>, \<^verbatim>\<open>pageToken\<close> and \<^verbatim>\<open>key\<close> for the membership listing;
  \<^verbatim>\<open>id\<close> (the comma-joined batch) and \<^verbatim>\<open>key\<close> for the details lookup; \<^verbatim>\<open>id\<close> and \<^verbatim>\<open>key\<close> for
  the title lookup. The parameter \<^verbatim>\<open>part\<close>, a constant of each request, is left out.
\<close>

datatype call =
    PlaylistItemsCall string nat "string option" string
  | VideosCall string string
  | PlaylistsCall string string

text \<open>
  The external service is a state machine over an arbitrary state \<open>'w\<close>: each operation
  answers a request in a state and moves to the next state, so a scripted sequence of
  answers and a service that changes between calls are both instances. A \<open>world\<close> is the
  service state together with the log of the requests sent so far.
\<close>

record 'w catalog =
  list_playlistItems :: "string \<Rightarrow> nat \<Rightarrow> string option \<Rightarrow> string \<Rightarrow> 'w \<Rightarrow> PlaylistResponse response \<times> 'w"
  list_videos :: "string \<Rightarrow> string \<Rightarrow> 'w \<Rightarrow> VideosResponse response \<times> 'w"
  list_playlists :: "string \<Rightarrow> string \<Rightarrow> 'w \<Rightarrow> PlaylistsResponse response \<times> 'w"

record 'w world =
  service_state :: 'w
  calls :: "call list"

definition fetch_playlistItems ::
  "'w catalog \<Rightarrow> string \<Rightarrow> nat \<Rightarrow> string option \<Rightarrow> string \<Rightarrow> 'w world
    \<Rightarrow> PlaylistResponse response \<times> 'w world" where
  "fetch_playlistItems svc playlistId maxResults pageToken key \<sigma> =
     (let (r, w) = list_playlistItems svc playlistId maxResults pageToken key (service_state \<sigma>)
      in (r, \<lparr>service_state = w,
              calls = calls \<sigma> @ [PlaylistItemsCall playlistId maxResults pageToken key]\<rparr>))"

definition fetch_videos ::
  "'w catalog \<Rightarrow> string \<Rightarrow> string \<Rightarrow> 'w world \<Rightarrow> VideosResponse response \<times> 'w world" where
  "fetch_videos svc ids key \<sigma> =
     (let (r, w) = list_videos svc ids key (service_state \<sigma>)
      in (r, \<lparr>service_state = w, calls = calls \<sigma> @ [VideosCall ids key]\<rparr>))"

definition fetch_playlists ::
  "'w catalog \<Rightarrow> string \<Rightarrow> string \<Rightarrow> 'w world \<Rightarrow> PlaylistsResponse response \<times> 'w world" where
  "fetch_playlists svc ident key \<sigma> =
     (let (r, w) = list_playlists svc ident key (service_state \<sigma>)
      in (r, \<lparr>service_state = w, calls = calls \<sigma> @ [PlaylistsCall ident key]\<rparr>))"

text \<open>Truthiness of an optional string: \<^verbatim>\<open>undefined\<close> and \<^verbatim>\<open>''\<close> are falsy.\<close>

definition truthy :: "string option \<Rightarrow> bool" where
  "truthy v = (case v of None \<Rightarrow> False | Some s \<Rightarrow> s \<noteq> [])"

text \<open>\<^verbatim>\<open>Array.prototype.slice(b, e)\<close> on integer arguments, negative ones counting from the end.\<close>

definition slice :: "'a list \<Rightarrow> int \<Rightarrow> int \<Rightarrow> 'a list" where
  "slice xs b e =
     (let n = int (length xs);
          k = (if b < 0 then max (n + b) 0 else min b n);
          f = (if e < 0 then max (n + e) 0 else min e n)
      in take (nat (f - k)) (drop (nat k) xs))"

text \<open>\<^verbatim>\<open>batch.join(',')\<close>.\<close>

fun join :: "string list \<Rightarrow> string" where
  "join [] = []"
| "join [x] = x"
| "join (x # y # ys) = x @ '','' @ join (y # ys)"

section \<open>Catalog client\<close>

text \<open>
  The \<^verbatim>\<open>do ... while (nextPageToken)\<close> loop of \<^verbatim>\<open>fetchAllPlaylistItems\<close>. The service decides
  whether a cursor comes back, so the loop need not end: the result is \<open>None\<close> when it
  runs forever. A thrown error is \<open>Inl\<close> of its message.
\<close>

partial_function (option) fetchAllPlaylistItems_loop ::
  "'w catalog \<Rightarrow> string \<Rightarrow> string \<Rightarrow> PlaylistItem list \<Rightarrow> string option \<Rightarrow> 'w world
    \<Rightarrow> ((string + PlaylistItem list) \<times> 'w world) option" where
  "fetchAllPlaylistItems_loop svc playlistId apiKey allItems pageToken \<sigma> =
     (case fetch_playlistItems svc playlistId 50
             (if truthy pageToken then pageToken else None) apiKey \<sigma> of
        (Throws e, \<sigma>') \<Rightarrow> Some (Inl e, \<sigma>')
      | (NotOk errorData, \<sigma>') \<Rightarrow> Some (Inl (js_or errorData ''Failed to fetch playlist items''), \<sigma>')
      | (Ok data, \<sigma>') \<Rightarrow>
          (if truthy (nextPageToken data)
           then fetchAllPlaylistItems_loop svc playlistId apiKey (allItems @ items data)
                  (nextPageToken data) \<sigma>'
           else Some (Inr (allItems @ items data), \<sigma>')))"

definition fetchAllPlaylistItems ::
  "'w catalog \<Rightarrow> string \<Rightarrow> string \<Rightarrow> 'w world \<Rightarrow> ((string + PlaylistItem list) \<times> 'w world) option" where
  "fetchAllPlaylistItems svc playlistId apiKey \<sigma> =
     fetchAllPlaylistItems_loop svc playlistId apiKey [] None \<sigma>"

text \<open>The \<^verbatim>\<open>for (let i = 0; i < videoIds.length; i += 50)\<close> loop of \<^verbatim>\<open>fetchVideoDetails\<close>.\<close>

function fetchVideoDetails_loop ::
  "'w catalog \<Rightarrow> string list \<Rightarrow> string \<Rightarrow> nat \<Rightarrow> VideoItem list \<Rightarrow> 'w world
    \<Rightarrow> (string + VideoItem list) \<times> 'w world" where
  "fetchVideoDetails_loop svc videoIds apiKey i allVideos \<sigma> =
     (if i < length videoIds then
        (let batch = slice videoIds (int i) (int i + 50)
         in case fetch_videos svc (join batch) apiKey \<sigma> of
              (Throws e, \<sigma>') \<Rightarrow> (Inl e, \<sigma>')
            | (NotOk errorData, \<sigma>') \<Rightarrow> (Inl (js_or errorData ''Failed to fetch video details''), \<sigma>')
            | (Ok data, \<sigma>') \<Rightarrow>
                fetchVideoDetails_loop svc videoIds apiKey (i + 50) (allVideos @ video_items data) \<sigma>')
      else (Inr allVideos, \<sigma>))"
  by pat_completeness auto
termination
  by (relation "measure (\<lambda>(svc, videoIds, apiKey, i, allVideos, \<sigma>). length videoIds - i)") auto

definition fetchVideoDetails ::
  "'w catalog \<Rightarrow> string list \<Rightarrow> string \<Rightarrow> 'w world \<Rightarrow> (string + VideoItem list) \<times> 'w world" where
  "fetchVideoDetails svc videoIds apiKey \<sigma> = fetchVideoDetails_loop svc videoIds apiKey 0 [] \<sigma>"

text \<open>The values \<^verbatim>\<open>batch\<close> takes in that loop, from index \<open>i\<close> on, when no request fails.\<close>

function batches :: "'a list \<Rightarrow> nat \<Rightarrow> 'a list list" where
  "batches videoIds i =
     (if i < length videoIds
      then slice videoIds (int i) (int i + 50) # batches videoIds (i + 50)
      else [])"
  by pat_completeness auto
termination
  by (relation "measure (\<lambda>(videoIds, i). length videoIds - i)") auto

declare batches.simps [simp del]

declare fetchVideoDetails_loop.simps [simp del]

definition videos_calls :: "string \<Rightarrow> string list list \<Rightarrow> call list" where
  "videos_calls key bs = map (\<lambda>b. VideosCall (join b) key) bs"

text \<open>
  \<open>paged svc playlistId key pageToken w ps w'\<close>: from state \<open>w\<close> the service answers the
  membership requests that start with cursor \<open>pageToken\<close> with exactly the pages \<open>ps\<close>, each
  but the last carrying a cursor, the last carrying none, and ends in state \<open>w'\<close>.
\<close>

fun paged ::
  "'w catalog \<Rightarrow> string \<Rightarrow> string \<Rightarrow> string option \<Rightarrow> 'w \<Rightarrow> PlaylistResponse list \<Rightarrow> 'w \<Rightarrow> bool" where
  "paged svc playlistId key pageToken w [] w' = False"
| "paged svc playlistId key pageToken w (p # ps) w' =
     (case list_playlistItems svc playlistId 50 pageToken key w of
        (Ok data, w1) \<Rightarrow>
          data = p \<and>
          (if truthy (nextPageToken p) then paged svc playlistId key (nextPageToken p) w1 ps w'
           else ps = [] \<and> w1 = w')
      | _ \<Rightarrow> False)"

definition page_calls :: "string \<Rightarrow> string \<Rightarrow> string option list \<Rightarrow> call list" where
  "page_calls playlistId key toks = map (\<lambda>t. PlaylistItemsCall playlistId 50 t key) toks"

definition only_page_calls :: "string \<Rightarrow> string \<Rightarrow> call list \<Rightarrow> bool" where
  "only_page_calls pid key cs = (\<forall>c \<in> set cs. \<exists>tok. c = PlaylistItemsCall pid 50 tok key)"

section \<open>Request handler\<close>

record VideoData =
  data_id :: string
  data_title :: string
  duration :: string
  durationSeconds :: nat

record PlaylistData =
  title :: string
  totalVideos :: nat
  videos :: "VideoData list"

record ResultsData =
  playlist :: PlaylistData
  selectedVideos :: "VideoData list"
  totalDuration :: nat
  averageDuration :: "int option"

text \<open>\<^verbatim>\<open>NextResponse.json\<close>: an error body with its status, or the result with status 200.\<close>

datatype NextResponse = Json_error string nat | Json_result ResultsData

text \<open>
  The decoded request body. \<open>None\<close> is an absent field; the numbers are integers.
\<close>

record RequestBody =
  playlistUrl :: "string option"
  startVideo :: "int option"
  endVideo :: "int option"
  completePlaylist :: bool

text \<open>\<^verbatim>\<open>!v\<close> for an optional number: absent and \<open>0\<close> are falsy.\<close>

definition falsy :: "int option \<Rightarrow> bool" where
  "falsy v = (case v of None \<Rightarrow> True | Some n \<Rightarrow> n = 0)"

text \<open>
  \<^verbatim>\<open>a < b\<close> where either side may be \<^verbatim>\<open>undefined\<close>: the comparison is then false. An
  \<^verbatim>\<open>undefined\<close> operand makes \<^verbatim>\<open>startVideo - 1\<close> and \<^verbatim>\<open>Math.min(endVideo, n)\<close> be NaN,
  which \<^verbatim>\<open>slice\<close> reads as \<open>0\<close> (\<open>to_integer\<close>).
\<close>

definition js_less :: "int option \<Rightarrow> int option \<Rightarrow> bool" where
  "js_less a b = (case (a, b) of (Some x, Some y) \<Rightarrow> x < y | _ \<Rightarrow> False)"

definition to_integer :: "int option \<Rightarrow> int" where
  "to_integer v = (case v of None \<Rightarrow> 0 | Some n \<Rightarrow> n)"

text \<open>Lines 148 to 163 of \<^verbatim>\<open>route.ts\<close>: the selected items, or the rejection.\<close>

definition selectItems :: "RequestBody \<Rightarrow> PlaylistItem list \<Rightarrow> NextResponse + PlaylistItem list" where
  "selectItems body playlistItems =
     (if completePlaylist body then Inr playlistItems
      else if js_less (startVideo body) (Some 1) \<or> js_less (endVideo body) (startVideo body)
              \<or> js_less (Some (int (length playlistItems))) (startVideo body)
           then Inl (Json_error ''Invalid video range'' 400)
           else Inr (slice playlistItems
                       (to_integer (map_option (\<lambda>s. s - 1) (startVideo body)))
                       (to_integer (map_option (\<lambda>e. min e (int (length playlistItems))) (endVideo body)))))"

text \<open>The callback of \<^verbatim>\<open>selectedItems.map\<close>, lines 170 to 180.\<close>

definition videoData :: "VideoItem list \<Rightarrow> PlaylistItem \<Rightarrow> VideoData" where
  "videoData videoDetails item =
     (let videoDetail = find (\<lambda>v. item_id v = snippet_resourceId_videoId item) videoDetails
      in \<lparr>data_id = snippet_resourceId_videoId item,
          data_title = snippet_title item,
          duration = js_or (map_option contentDetails_duration videoDetail) ''PT0S'',
          durationSeconds =
            (case videoDetail of Some d \<Rightarrow> parseDuration (contentDetails_duration d) | None \<Rightarrow> 0)\<rparr>)"

text \<open>
  \<^verbatim>\<open>Math.round\<close> rounds to the nearest integer, a half going up. The quotient is taken in
  the rationals; floating-point rounding of the quotient is outside the model.
\<close>

definition Math_round :: "rat \<Rightarrow> int" where
  "Math_round x = \<lfloor>x + 1 / 2\<rfloor>"

definition total_of :: "VideoData list \<Rightarrow> nat" where
  "total_of vs = foldl (\<lambda>sum video. sum + durationSeconds video) 0 vs"

text \<open>\<^verbatim>\<open>0 / 0\<close> is NaN, which is \<open>None\<close> here.\<close>

definition average_of :: "nat \<Rightarrow> VideoData list \<Rightarrow> int option" where
  "average_of t vs =
     (if length vs = 0 then None
      else Some (Math_round (of_nat t / of_nat (length vs))))"

text \<open>
  Lines 187 to 204: the title lookup inside its own \<^verbatim>\<open>try\<close>. Every outcome but a body
  with at least one item leaves the initial value.
\<close>

definition playlistTitle_of :: "PlaylistsResponse response \<Rightarrow> string" where
  "playlistTitle_of playlistResponse =
     (case playlistResponse of
        Throws e \<Rightarrow> ''Unknown Playlist''
      | NotOk errorData \<Rightarrow> ''Unknown Playlist''
      | Ok playlistData \<Rightarrow>
          (case playlist_titles playlistData of
             None \<Rightarrow> ''Unknown Playlist''
           | Some [] \<Rightarrow> ''Unknown Playlist''
           | Some (t # ts) \<Rightarrow> t))"

text \<open>Lines 164 to 217, from the details lookup to the result.\<close>

definition aggregate ::
  "'w catalog \<Rightarrow> string \<Rightarrow> string \<Rightarrow> PlaylistItem list \<Rightarrow> PlaylistItem list \<Rightarrow> 'w world
    \<Rightarrow> NextResponse \<times> 'w world" where
  "aggregate svc playlistId apiKey playlistItems selectedItems \<sigma> =
     (let videoIds = map snippet_resourceId_videoId selectedItems
      in case fetchVideoDetails svc videoIds apiKey \<sigma> of
           (Inl message, \<sigma>') \<Rightarrow> (Json_error message 500, \<sigma>')
         | (Inr videoDetails, \<sigma>') \<Rightarrow>
             (let selectedVideos = map (videoData videoDetails) selectedItems;
                  total = total_of selectedVideos;
                  average = average_of total selectedVideos;
                  (playlistResponse, \<sigma>'') = fetch_playlists svc playlistId apiKey \<sigma>';
                  playlistTitle = playlistTitle_of playlistResponse
              in (Json_result
                    \<lparr>playlist = \<lparr>title = playlistTitle, totalVideos = length playlistItems, videos = []\<rparr>,
                     selectedVideos = selectedVideos,
                     totalDuration = total,
                     averageDuration = average\<rparr>, \<sigma>'')))"

text \<open>
  The handler. \<open>YOUTUBE_API_KEY\<close> is \<^verbatim>\<open>process.env.YOUTUBE_API_KEY\<close>. The outer
  \<^verbatim>\<open>catch\<close> turns a thrown error into status 500 with the error's message. The request
  body and the bodies the service returns have the types the interfaces declare.
\<close>

definition POST ::
  "'w catalog \<Rightarrow> string option \<Rightarrow> RequestBody \<Rightarrow> 'w world \<Rightarrow> (NextResponse \<times> 'w world) option" where
  "POST svc YOUTUBE_API_KEY body \<sigma> =
     (if \<not> truthy (playlistUrl body)
         \<or> (\<not> completePlaylist body \<and> (falsy (startVideo body) \<or> falsy (endVideo body)))
      then Some (Json_error ''Missing required fields'' 400, \<sigma>)
      else if \<not> truthy YOUTUBE_API_KEY
      then Some (Json_error ''YouTube API key not configured'' 500, \<sigma>)
      else
        (case extractPlaylistId (js_or (playlistUrl body) []) of
           None \<Rightarrow> Some (Json_error ''Invalid YouTube playlist URL'' 400, \<sigma>)
         | Some playlistId \<Rightarrow>
             if playlistId = [] then Some (Json_error ''Invalid YouTube playlist URL'' 400, \<sigma>)
             else
               (case fetchAllPlaylistItems svc playlistId (js_or YOUTUBE_API_KEY []) \<sigma> of
                  None \<Rightarrow> None
                | Some (Inl message, \<sigma>') \<Rightarrow> Some (Json_error message 500, \<sigma>')
                | Some (Inr playlistItems, \<sigma>') \<Rightarrow>
                    if length playlistItems = 0
                    then Some (Json_error ''Playlist is empty or not found'' 404, \<sigma>')
                    else
                      (case selectItems body playlistItems of
                         Inl rejected \<Rightarrow> Some (rejected, \<sigma>')
                       | Inr selectedItems \<Rightarrow>
                           Some (aggregate svc playlistId (js_or YOUTUBE_API_KEY []) playlistItems
                                   selectedItems \<sigma>')))))"

text \<open>The outcomes of the title lookup that leave the title unresolved.\<close>

definition lookup_failed :: "PlaylistsResponse response \<Rightarrow> bool" where
  "lookup_failed playlistResponse =
     (case playlistResponse of
        Throws e \<Rightarrow> True
      | NotOk errorData \<Rightarrow> True
      | Ok playlistData \<Rightarrow>
          (case playlist_titles playlistData of None \<Rightarrow> True | Some ts \<Rightarrow> ts = []))"

definition is_videos_call :: "call \<Rightarrow> bool" where
  "is_videos_call c = (case c of VideosCall ids key \<Rightarrow> True | _ \<Rightarrow> False)"

definition is_playlists_call :: "call \<Rightarrow> bool" where
  "is_playlists_call c = (case c of PlaylistsCall ident key \<Rightarrow> True | _ \<Rightarrow> False)"

section \<open>An example request and service\<close>

text \<open>
  A playlist of three videos behind a service that answers every request at once: one
  page of membership, details for the second and third video only (in the opposite
  order), and a title lookup that is refused.
\<close>

definition demo_items :: "PlaylistItem list" where
  "demo_items =
     [\<lparr>snippet_title = ''first'', snippet_resourceId_videoId = ''v1''\<rparr>,
      \<lparr>snippet_title = ''second'', snippet_resourceId_videoId = ''v2''\<rparr>,
      \<lparr>snippet_title = ''third'', snippet_resourceId_videoId = ''v3''\<rparr>]"

definition demo_body :: RequestBody where
  "demo_body =
     \<lparr>playlistUrl = Some ''https://www.youtube.com/playlist?list=PL_x-1'',
      startVideo = Some 2, endVideo = Some 5, completePlaylist = False\<rparr>"



definition demo_details :: "VideoItem list" where
  "demo_details =
     [\<lparr>item_id = ''v3'', item_snippet_title = ''third'', contentDetails_duration = ''PT2M''\<rparr>,
      \<lparr>item_id = ''v2'', item_snippet_title = ''second'', contentDetails_duration = ''PT1M41S''\<rparr>]"

definition demo_catalog :: "unit catalog" where
  "demo_catalog =
     \<lparr>list_playlistItems =
        (\<lambda>playlistId maxResults pageToken key w. (Ok \<lparr>items = demo_items, nextPageToken = None\<rparr>, w)),
      list_videos = (\<lambda>ids key w. (Ok \<lparr>video_items = demo_details\<rparr>, w)),
      list_playlists = (\<lambda>ident key w. (NotOk None, w))\<rparr>"

definition demo_world :: "unit world" where
  "demo_world = \<lparr>service_state = (), calls = []\<rparr>"

definition demo_result :: ResultsData where
  "demo_result =
     \<lparr>playlist = \<lparr>title = ''Unknown Playlist'', totalVideos = 3, videos = []\<rparr>,
      selectedVideos =
        [\<lparr>data_id = ''v2'', data_title = ''second'', duration = ''PT1M41S'', durationSeconds = 101\<rparr>,
         \<lparr>data_id = ''v3'', data_title = ''third'', duration = ''PT2M'', durationSeconds = 120\<rparr>],
      totalDuration = 221,
      averageDuration = Some 111\<rparr>"

definition demo_calls :: "call list" where
  "demo_calls =
     [PlaylistItemsCall ''PL_x-1'' 50 None ''key'', VideosCall ''v2,v3'' ''key'',
      PlaylistsCall ''PL_x-1'' ''key'']"

text \<open>A title lookup whose request fails.\<close>

definition offline_lookup :: "string \<Rightarrow> string \<Rightarrow> unit \<Rightarrow> PlaylistsResponse response \<times> unit" where
  "offline_lookup ident key w = (Throws ''fetch failed'', w)"

text \<open>
  A scripted service: its state is the list of membership pages still to be served, one
  per request; here 120 items as pages of 50, 50 and 20.
\<close>

definition demo_page :: "nat \<Rightarrow> string \<Rightarrow> PlaylistItem list" where
  "demo_page n v = replicate n \<lparr>snippet_title = v, snippet_resourceId_videoId = v\<rparr>"

definition demo_pages :: "PlaylistResponse list" where
  "demo_pages =
     [\<lparr>items = demo_page 50 ''a'', nextPageToken = Some ''t1''\<rparr>,
      \<lparr>items = demo_page 50 ''b'', nextPageToken = Some ''t2''\<rparr>,
      \<lparr>items = demo_page 20 ''c'', nextPageToken = None\<rparr>]"

definition scripted_catalog :: "PlaylistResponse list catalog" where
  "scripted_catalog =
     \<lparr>list_playlistItems =
        (\<lambda>playlistId maxResults pageToken key w.
           case w of [] \<Rightarrow> (Throws ''no page left'', []) | p # ps \<Rightarrow> (Ok p, ps)),
      list_videos = (\<lambda>ids key w. (Ok \<lparr>video_items = []\<rparr>, w)),
      list_playlists = (\<lambda>ident key w. (NotOk None, w))\<rparr>"

section \<open>Duration codec: lemmas\<close>
















section \<open>Identifier extractor: lemmas\<close>

lemma starts_with_append: "starts_with p (p @ r)"
  by (simp add: starts_with_def)

lemma capture_id_run:
  assumes "v \<noteq> []" and "\<forall>c \<in> set v. id_char c" and "rest = [] \<or> \<not> id_char (hd rest)"
  shows "capture_id (v @ rest) = Some v"
proof -
  have "takeWhile id_char (v @ rest) = v"
  proof (cases rest)
    case Nil
    with assms(2) show ?thesis by simp
  next
    case (Cons r rs)
    with assms(3) have "\<not> id_char r" by simp
    with assms(2) Cons show ?thesis by (simp add: takeWhile_append2)
  qed
  with assms(1) show ?thesis by (simp add: capture_id_def)
qed

lemma capture_id_Some:
  assumes "capture_id r = Some v"
  shows "v \<noteq> [] \<and> (\<forall>c \<in> set v. id_char c) \<and> (\<exists>rest. r = v @ rest \<and> (rest = [] \<or> \<not> id_char (hd rest)))"
proof -
  from assms have v: "v = takeWhile id_char r" and ne: "v \<noteq> []"
    by (auto simp: capture_id_def Let_def split: if_splits)
  have all: "\<forall>c \<in> set v. id_char c"
    unfolding v by (auto dest: set_takeWhileD)
  have r: "r = v @ dropWhile id_char r"
    unfolding v by simp
  have "dropWhile id_char r = [] \<or> \<not> id_char (hd (dropWhile id_char r))"
    by (metis hd_dropWhile)
  with ne all r show ?thesis by blast
qed

lemma match_at_pattern:
  assumes "p = youtube_com \<or> p = youtu_be"
    and "v \<noteq> []" and "\<forall>c \<in> set v. id_char c" and "rest = [] \<or> \<not> id_char (hd rest)"
  shows "match_at (p @ v @ rest) = Some v"
proof -
  have c: "capture_id (v @ rest) = Some v"
    using assms(2-4) by (rule capture_id_run)
  from assms(1) show ?thesis
  proof
    assume "p = youtube_com"
    then show ?thesis by (simp add: match_at_def starts_with_append c)
  next
    assume p: "p = youtu_be"
    have "\<not> starts_with youtube_com (youtu_be @ v @ rest)"
      by (simp add: starts_with_def youtu_be_def youtube_com_def)
    with p show ?thesis by (simp add: match_at_def starts_with_append c)
  qed
qed

lemma match_at_Some:
  assumes "match_at s = Some v"
  shows "\<exists>p rest. (p = youtube_com \<or> p = youtu_be) \<and> s = p @ v @ rest \<and> v \<noteq> []
           \<and> (\<forall>c \<in> set v. id_char c) \<and> (rest = [] \<or> \<not> id_char (hd rest))"
proof -
  from assms consider
      "starts_with youtube_com s" "capture_id (drop (length youtube_com) s) = Some v"
    | "starts_with youtu_be s" "capture_id (drop (length youtu_be) s) = Some v"
    by (auto simp: match_at_def split: option.splits if_splits)
  then show ?thesis
  proof cases
    case 1
    from 1(1) have s: "s = youtube_com @ drop (length youtube_com) s"
      by (metis append_take_drop_id starts_with_def)
    from capture_id_Some [OF 1(2)] obtain rest where
      "v \<noteq> []" "\<forall>c \<in> set v. id_char c" "drop (length youtube_com) s = v @ rest"
      "rest = [] \<or> \<not> id_char (hd rest)" by blast
    with s show ?thesis by metis
  next
    case 2
    from 2(1) have s: "s = youtu_be @ drop (length youtu_be) s"
      by (metis append_take_drop_id starts_with_def)
    from capture_id_Some [OF 2(2)] obtain rest where
      "v \<noteq> []" "\<forall>c \<in> set v. id_char c" "drop (length youtu_be) s = v @ rest"
      "rest = [] \<or> \<not> id_char (hd rest)" by blast
    with s show ?thesis by metis
  qed
qed

lemma extract_here: "match_at s = Some v \<Longrightarrow> extractPlaylistId s = Some v"
  by (cases s) simp_all

lemma extract_skip:
  "\<forall>k < length pre. match_at (drop k (pre @ s)) = None \<Longrightarrow>
   extractPlaylistId (pre @ s) = extractPlaylistId s"
proof (induction pre)
  case Nil
  show ?case by simp
next
  case (Cons c pre)
  from Cons.prems have h: "match_at (c # pre @ s) = None"
    by (metis append_Cons drop0 length_greater_0_conv list.distinct(1))
  have "\<forall>k < length pre. match_at (drop k (pre @ s)) = None"
  proof (intro allI impI)
    fix k assume "k < length pre"
    then have "Suc k < length (c # pre)" by simp
    with Cons.prems have "match_at (drop (Suc k) ((c # pre) @ s)) = None" by blast
    then show "match_at (drop k (pre @ s)) = None" by simp
  qed
  with Cons.IH have "extractPlaylistId (pre @ s) = extractPlaylistId s" .
  with h show ?case by simp
qed

lemma extract_found:
  assumes "p = youtube_com \<or> p = youtu_be"
    and "v \<noteq> []" and "\<forall>c \<in> set v. id_char c" and "rest = [] \<or> \<not> id_char (hd rest)"
    and "\<forall>k < length pre. match_at (drop k (pre @ p @ v @ rest)) = None"
  shows "extractPlaylistId (pre @ p @ v @ rest) = Some v"
proof -
  have "extractPlaylistId (pre @ p @ v @ rest) = extractPlaylistId (p @ v @ rest)"
    using assms(5) by (rule extract_skip)
  also have "\<dots> = Some v"
    by (rule extract_here) (rule match_at_pattern [OF assms(1-4)])
  finally show ?thesis .
qed

lemma extract_Some:
  "extractPlaylistId url = Some v \<Longrightarrow>
   \<exists>pre p rest. url = pre @ p @ v @ rest \<and> (p = youtube_com \<or> p = youtu_be) \<and> v \<noteq> []
      \<and> (\<forall>c \<in> set v. id_char c) \<and> (rest = [] \<or> \<not> id_char (hd rest))
      \<and> (\<forall>k < length pre. match_at (drop k url) = None)"
proof (induction url)
  case Nil
  then have "match_at [] = Some v" by simp
  from match_at_Some [OF this] show ?case by (simp add: youtube_com_def youtu_be_def)
next
  case (Cons c cs)
  show ?case
  proof (cases "match_at (c # cs)")
    case (Some w)
    with Cons.prems have "match_at (c # cs) = Some v" by simp
    from match_at_Some [OF this] obtain p rest where
      "(p = youtube_com \<or> p = youtu_be)" "c # cs = [] @ p @ v @ rest" "v \<noteq> []"
      "\<forall>c \<in> set v. id_char c" "rest = [] \<or> \<not> id_char (hd rest)" by auto
    moreover have "\<forall>k < length ([]::string). match_at (drop k (c # cs)) = None" by simp
    ultimately show ?thesis by blast
  next
    case None
    with Cons.prems have "extractPlaylistId cs = Some v" by simp
    from Cons.IH [OF this] obtain pre p rest where
      e: "cs = pre @ p @ v @ rest" and p: "p = youtube_com \<or> p = youtu_be" and v: "v \<noteq> []"
      and a: "\<forall>c \<in> set v. id_char c" and r: "rest = [] \<or> \<not> id_char (hd rest)"
      and n: "\<forall>k < length pre. match_at (drop k cs) = None" by blast
    have "\<forall>k < length (c # pre). match_at (drop k (c # cs)) = None"
    proof (intro allI impI)
      fix k assume k: "k < length (c # pre)"
      show "match_at (drop k (c # cs)) = None"
      proof (cases k)
        case 0
        with None show ?thesis by simp
      next
        case (Suc j)
        with k n show ?thesis by simp
      qed
    qed
    moreover from e have "c # cs = (c # pre) @ p @ v @ rest" by simp
    ultimately show ?thesis using p v a r by blast
  qed
qed

lemma occurs_in_append: "occurs_in q (a @ q @ b)"
proof (induction a)
  case Nil
  show ?case by (cases "q @ b") (simp_all add: starts_with_def, metis append_Cons starts_with_append starts_with_def)
next
  case (Cons x a)
  then show ?case by simp
qed

lemma match_at_occurs:
  assumes "match_at s \<noteq> None"
  shows "occurs_in ''list='' s"
proof -
  from assms obtain v where "match_at s = Some v" by auto
  from match_at_Some [OF this] obtain p rest where
    p: "p = youtube_com \<or> p = youtu_be" and s: "s = p @ v @ rest" by blast
  from p obtain a where "p = a @ ''list=''"
    by (auto simp: youtube_com_def youtu_be_def)
  with s have "s = a @ ''list='' @ (v @ rest)" by simp
  then show ?thesis by (metis occurs_in_append)
qed

lemma extract_none: "\<not> occurs_in ''list='' url \<Longrightarrow> extractPlaylistId url = None"
proof (induction url)
  case Nil
  show ?case by (simp add: match_at_def starts_with_def youtube_com_def youtu_be_def)
next
  case (Cons c cs)
  from Cons.prems have "match_at (c # cs) = None"
    using match_at_occurs [of "c # cs"] by blast
  moreover from Cons.prems have "\<not> occurs_in ''list='' cs" by auto
  ultimately show ?case using Cons.IH by simp
qed

lemma extract_None_iff:
  "extractPlaylistId url = None \<longleftrightarrow> (\<forall>k \<le> length url. match_at (drop k url) = None)"
proof (induction url)
  case Nil
  show ?case by simp
next
  case (Cons c cs)
  have "(\<forall>k \<le> length (c # cs). match_at (drop k (c # cs)) = None) \<longleftrightarrow>
        (match_at (c # cs) = None \<and> (\<forall>k \<le> length cs. match_at (drop k cs) = None))"
    (is "?L \<longleftrightarrow> ?R")
  proof
    assume l: ?L
    then have "match_at (drop 0 (c # cs)) = None" by blast
    moreover have "\<forall>k \<le> length cs. match_at (drop k cs) = None"
    proof (intro allI impI)
      fix k assume "k \<le> length cs"
      then have "Suc k \<le> length (c # cs)" by simp
      with l have "match_at (drop (Suc k) (c # cs)) = None" by blast
      then show "match_at (drop k cs) = None" by simp
    qed
    ultimately show ?R by simp
  next
    assume r: ?R
    show ?L
    proof (intro allI impI)
      fix k assume "k \<le> length (c # cs)"
      with r show "match_at (drop k (c # cs)) = None" by (cases k) simp_all
    qed
  qed
  with Cons.IH show ?case by (simp split: option.splits)
qed

lemma no_y_no_match:
  assumes "CHR ''y'' \<notin> set pre" and "k < length pre"
  shows "match_at (drop k (pre @ s)) = None"
proof (rule ccontr)
  assume "match_at (drop k (pre @ s)) \<noteq> None"
  then obtain v where "match_at (drop k (pre @ s)) = Some v" by auto
  from match_at_Some [OF this] obtain p rest where
    p: "p = youtube_com \<or> p = youtu_be" and s: "drop k (pre @ s) = p @ v @ rest" by blast
  from p have "hd (p @ v @ rest) = CHR ''y''"
    by (auto simp: youtube_com_def youtu_be_def)
  with s have "hd (drop k (pre @ s)) = CHR ''y''" by simp
  with assms(2) have "pre ! k = CHR ''y''"
    by (simp add: hd_drop_conv_nth nth_append)
  with assms show False by (metis nth_mem)
qed

section \<open>Batches and pages: lemmas\<close>









lemma fetch_videos_calls:
  "fetch_videos svc ids key \<sigma> = (r, \<sigma>') \<Longrightarrow> calls \<sigma>' = calls \<sigma> @ [VideosCall ids key]"
  by (auto simp: fetch_videos_def split: prod.splits)

lemma fetchVideoDetails_loop_calls:
  "fetchVideoDetails_loop svc ids key i acc \<sigma> = (r, \<sigma>') \<Longrightarrow>
   (\<exists>k \<le> length (batches ids i). calls \<sigma>' = calls \<sigma> @ videos_calls key (take k (batches ids i)))
   \<and> ((\<exists>vs. r = Inr vs) \<longrightarrow> calls \<sigma>' = calls \<sigma> @ videos_calls key (batches ids i))"
proof (induction svc ids key i acc \<sigma> arbitrary: r \<sigma>' rule: fetchVideoDetails_loop.induct)
  case (1 svc ids key i acc \<sigma>)
  show ?case
  proof (cases "i < length ids")
    case False
    with "1.prems" have "\<sigma>' = \<sigma>" and "batches ids i = []"
      by (simp_all add: fetchVideoDetails_loop.simps batches.simps)
    then show ?thesis by (simp add: videos_calls_def)
  next
    case True
    define batch where "batch = slice ids (int i) (int i + 50)"
    obtain resp \<sigma>1 where f: "fetch_videos svc (join batch) key \<sigma> = (resp, \<sigma>1)"
      by (cases "fetch_videos svc (join batch) key \<sigma>")
    from fetch_videos_calls [OF f] have c1: "calls \<sigma>1 = calls \<sigma> @ [VideosCall (join batch) key]" .
    from True have b: "batches ids i = batch # batches ids (i + 50)"
      by (subst batches.simps) (simp add: batch_def)
    show ?thesis
    proof (cases resp)
      case (Throws e)
      with "1.prems" True f have "\<sigma>' = \<sigma>1" and "r = Inl e"
        by (simp_all add: fetchVideoDetails_loop.simps [of svc ids key i] batch_def [symmetric])
      with c1 b have "calls \<sigma>' = calls \<sigma> @ videos_calls key (take 1 (batches ids i))"
        by (simp add: videos_calls_def)
      moreover have "1 \<le> length (batches ids i)" using b by simp
      ultimately show ?thesis using \<open>r = Inl e\<close> by blast
    next
      case (NotOk m)
      with "1.prems" True f have "\<sigma>' = \<sigma>1" and r: "\<exists>e. r = Inl e"
        by (auto simp: fetchVideoDetails_loop.simps [of svc ids key i] batch_def [symmetric])
      with c1 b have "calls \<sigma>' = calls \<sigma> @ videos_calls key (take 1 (batches ids i))"
        by (simp add: videos_calls_def)
      moreover have "1 \<le> length (batches ids i)" using b by simp
      ultimately show ?thesis using r by blast
    next
      case (Ok data)
      with "1.prems" True f have
        rec: "fetchVideoDetails_loop svc ids key (i + 50) (acc @ video_items data) \<sigma>1 = (r, \<sigma>')"
        by (simp add: fetchVideoDetails_loop.simps [of svc ids key i] batch_def [symmetric])
      have "(\<exists>k \<le> length (batches ids (i + 50)).
               calls \<sigma>' = calls \<sigma>1 @ videos_calls key (take k (batches ids (i + 50))))
            \<and> ((\<exists>vs. r = Inr vs) \<longrightarrow> calls \<sigma>' = calls \<sigma>1 @ videos_calls key (batches ids (i + 50)))"
        by (rule "1.IH" [OF True batch_def f [symmetric] Ok rec])
      then obtain k where k: "k \<le> length (batches ids (i + 50))"
        and ck: "calls \<sigma>' = calls \<sigma>1 @ videos_calls key (take k (batches ids (i + 50)))"
        and full: "(\<exists>vs. r = Inr vs) \<longrightarrow> calls \<sigma>' = calls \<sigma>1 @ videos_calls key (batches ids (i + 50))"
        by blast
      from ck c1 b have "calls \<sigma>' = calls \<sigma> @ videos_calls key (take (Suc k) (batches ids i))"
        by (simp add: videos_calls_def)
      moreover from k b have "Suc k \<le> length (batches ids i)" by simp
      moreover from full c1 b have
        "(\<exists>vs. r = Inr vs) \<longrightarrow> calls \<sigma>' = calls \<sigma> @ videos_calls key (batches ids i)"
        by (simp add: videos_calls_def)
      ultimately show ?thesis by blast
    qed
  qed
qed

lemma fetchAllPlaylistItems_loop_paged:
  "paged svc pid key (if truthy tok then tok else None) (service_state \<sigma>) ps w' \<Longrightarrow>
   fetchAllPlaylistItems_loop svc pid key acc tok \<sigma> =
     Some (Inr (acc @ concat (map items ps)),
           \<lparr>service_state = w',
            calls = calls \<sigma> @ page_calls pid key
                      ((if truthy tok then tok else None) # map nextPageToken (butlast ps))\<rparr>)"
proof (induction ps arbitrary: acc tok \<sigma>)
  case Nil
  then show ?case by simp
next
  case (Cons p ps)
  let ?t = "if truthy tok then tok else None"
  from Cons.prems obtain w1 where
    l: "list_playlistItems svc pid 50 ?t key (service_state \<sigma>) = (Ok p, w1)"
    and rest: "if truthy (nextPageToken p) then paged svc pid key (nextPageToken p) w1 ps w'
               else ps = [] \<and> w1 = w'"
    by (auto split: prod.splits response.splits)
  define \<sigma>1 where "\<sigma>1 = \<lparr>service_state = w1, calls = calls \<sigma> @ [PlaylistItemsCall pid 50 ?t key]\<rparr>"
  have f: "fetch_playlistItems svc pid 50 ?t key \<sigma> = (Ok p, \<sigma>1)"
    using l by (simp add: fetch_playlistItems_def \<sigma>1_def)
  show ?case
  proof (cases "truthy (nextPageToken p)")
    case False
    with rest have "ps = []" "w1 = w'" by simp_all
    with False f show ?thesis
      by (subst fetchAllPlaylistItems_loop.simps) (simp add: \<sigma>1_def page_calls_def)
  next
    case True
    with rest have "paged svc pid key (nextPageToken p) w1 ps w'" by simp
    with True have
      "paged svc pid key (if truthy (nextPageToken p) then nextPageToken p else None)
         (service_state \<sigma>1) ps w'"
      by (simp add: \<sigma>1_def)
    from Cons.IH [OF this, of "acc @ items p"] have
      "fetchAllPlaylistItems_loop svc pid key (acc @ items p) (nextPageToken p) \<sigma>1 =
         Some (Inr ((acc @ items p) @ concat (map items ps)),
               \<lparr>service_state = w',
                calls = calls \<sigma>1 @ page_calls pid key
                          ((if truthy (nextPageToken p) then nextPageToken p else None)
                            # map nextPageToken (butlast ps))\<rparr>)" .
    moreover from \<open>paged svc pid key (nextPageToken p) w1 ps w'\<close> have "ps \<noteq> []"
      by (cases ps) simp_all
    ultimately show ?thesis using True f
      by (subst fetchAllPlaylistItems_loop.simps) (simp add: \<sigma>1_def page_calls_def)
  qed
qed

lemma fetch_playlistItems_calls:
  "fetch_playlistItems svc pid mx tok key \<sigma> = (r, \<sigma>') \<Longrightarrow>
   calls \<sigma>' = calls \<sigma> @ [PlaylistItemsCall pid mx tok key]"
  by (auto simp: fetch_playlistItems_def split: prod.splits)

lemma fetchAllPlaylistItems_loop_calls:
  assumes "fetchAllPlaylistItems_loop svc pid key acc tok \<sigma> = Some y"
  shows "\<exists>cs. calls (snd y) = calls \<sigma> @ cs \<and> only_page_calls pid key cs"
proof (rule fetchAllPlaylistItems_loop.raw_induct
         [where P = "\<lambda>svc pid key acc tok \<sigma> y.
                       \<exists>cs. calls (snd y) = calls \<sigma> @ cs \<and> only_page_calls pid key cs",
          OF _ assms], goal_cases)
  case (1 f svc pid key acc tok \<sigma> y)
  obtain resp \<sigma>1 where
    f: "fetch_playlistItems svc pid 50 (if truthy tok then tok else None) key \<sigma> = (resp, \<sigma>1)"
    by (cases "fetch_playlistItems svc pid 50 (if truthy tok then tok else None) key \<sigma>")
  from fetch_playlistItems_calls [OF f] have
    c1: "calls \<sigma>1 = calls \<sigma> @ [PlaylistItemsCall pid 50 (if truthy tok then tok else None) key]" .
  have one: "only_page_calls pid key [PlaylistItemsCall pid 50 (if truthy tok then tok else None) key]"
    by (simp add: only_page_calls_def)
  show ?case
  proof (cases resp)
    case (Throws e)
    with 1(2) f have "snd y = \<sigma>1" by auto
    with c1 one show ?thesis by blast
  next
    case (NotOk m)
    with 1(2) f have "snd y = \<sigma>1" by auto
    with c1 one show ?thesis by blast
  next
    case (Ok data)
    show ?thesis
    proof (cases "truthy (nextPageToken data)")
      case False
      with Ok 1(2) f have "snd y = \<sigma>1" by auto
      with c1 one show ?thesis by blast
    next
      case True
      with Ok 1(2) f have
        "f svc pid key (acc @ items data) (nextPageToken data) \<sigma>1 = Some y" by simp
      from 1(1) [OF this] obtain cs where
        "calls (snd y) = calls \<sigma>1 @ cs" "only_page_calls pid key cs" by blast
      with c1 have
        "calls (snd y) = calls \<sigma> @ (PlaylistItemsCall pid 50 (if truthy tok then tok else None) key # cs)"
        "only_page_calls pid key (PlaylistItemsCall pid 50 (if truthy tok then tok else None) key # cs)"
        by (simp_all add: only_page_calls_def)
      then show ?thesis by blast
    qed
  qed
qed

lemma fetchAllPlaylistItems_loop_pages:
  assumes "fetchAllPlaylistItems_loop svc pid key acc tok \<sigma> = Some y"
  shows "\<forall>xs. fst y = Inr xs \<longrightarrow>
           (\<exists>ps. paged svc pid key (if truthy tok then tok else None) (service_state \<sigma>) ps
                    (service_state (snd y))
                  \<and> xs = acc @ concat (map items ps))"
proof (rule fetchAllPlaylistItems_loop.raw_induct
         [where P = "\<lambda>svc pid key acc tok \<sigma> y.
                       \<forall>xs. fst y = Inr xs \<longrightarrow>
                         (\<exists>ps. paged svc pid key (if truthy tok then tok else None)
                                  (service_state \<sigma>) ps (service_state (snd y))
                                \<and> xs = acc @ concat (map items ps))",
          OF _ assms], goal_cases)
  case (1 f svc pid key acc tok \<sigma> y)
  let ?t = "if truthy tok then tok else None"
  obtain resp w1 where l: "list_playlistItems svc pid 50 ?t key (service_state \<sigma>) = (resp, w1)"
    by (cases "list_playlistItems svc pid 50 ?t key (service_state \<sigma>)")
  define \<sigma>1 where "\<sigma>1 = \<lparr>service_state = w1, calls = calls \<sigma> @ [PlaylistItemsCall pid 50 ?t key]\<rparr>"
  have f: "fetch_playlistItems svc pid 50 ?t key \<sigma> = (resp, \<sigma>1)"
    using l by (simp add: fetch_playlistItems_def \<sigma>1_def)
  show ?case
  proof (cases resp)
    case (Throws e)
    with 1(2) f show ?thesis by auto
  next
    case (NotOk m)
    with 1(2) f show ?thesis by auto
  next
    case (Ok data)
    show ?thesis
    proof (cases "truthy (nextPageToken data)")
      case False
      with Ok 1(2) f have y: "y = (Inr (acc @ items data), \<sigma>1)" by simp
      from False Ok l have "paged svc pid key ?t (service_state \<sigma>) [data] w1" by simp
      with y show ?thesis by (auto simp: \<sigma>1_def intro: exI [of _ "[data]"])
    next
      case True
      with Ok 1(2) f have
        "f svc pid key (acc @ items data) (nextPageToken data) \<sigma>1 = Some y" by simp
      from 1(1) [OF this] True have
        ih: "\<forall>xs. fst y = Inr xs \<longrightarrow>
               (\<exists>ps. paged svc pid key (nextPageToken data) w1 ps (service_state (snd y))
                      \<and> xs = (acc @ items data) @ concat (map items ps))"
        by (simp add: \<sigma>1_def)
      show ?thesis
      proof (intro allI impI)
        fix xs assume "fst y = Inr xs"
        with ih obtain ps where
          ps: "paged svc pid key (nextPageToken data) w1 ps (service_state (snd y))"
          and xs: "xs = (acc @ items data) @ concat (map items ps)" by blast
        from ps True Ok l have
          "paged svc pid key ?t (service_state \<sigma>) (data # ps) (service_state (snd y))" by simp
        moreover from xs have "xs = acc @ concat (map items (data # ps))" by simp
        ultimately show "\<exists>ps. paged svc pid key ?t (service_state \<sigma>) ps (service_state (snd y))
                  \<and> xs = acc @ concat (map items ps)" by blast
      qed
    qed
  qed
qed

lemma only_page_calls_not_videos:
  "only_page_calls pid key cs \<Longrightarrow> \<forall>c \<in> set cs. \<not> is_videos_call c \<and> \<not> is_playlists_call c"
  by (auto simp: only_page_calls_def is_videos_call_def is_playlists_call_def)

lemma fetchAllPlaylistItems_calls:
  assumes "fetchAllPlaylistItems svc pid key \<sigma> = Some (r, \<sigma>1)"
  shows "\<exists>cs. calls \<sigma>1 = calls \<sigma> @ cs \<and> (\<forall>c \<in> set cs. \<not> is_videos_call c \<and> \<not> is_playlists_call c)"
proof -
  from assms have "fetchAllPlaylistItems_loop svc pid key [] None \<sigma> = Some (r, \<sigma>1)"
    by (simp add: fetchAllPlaylistItems_def)
  from fetchAllPlaylistItems_loop_calls [OF this] obtain cs where
    "calls \<sigma>1 = calls \<sigma> @ cs" "only_page_calls pid key cs" by auto
  with only_page_calls_not_videos show ?thesis by blast
qed

section \<open>Selection and aggregation: lemmas\<close>

lemma Math_round_div:
  assumes "0 < n"
  shows "Math_round (of_nat t / of_nat n) = (2 * int t + int n) div (2 * int n)"
proof -
  have "(of_nat t :: rat) / of_nat n + 1 / 2 = of_int (2 * int t + int n) / of_int (2 * int n)"
    using assms by (simp add: field_simps)
  then show ?thesis
    unfolding Math_round_def by (simp only: floor_divide_of_int_eq)
qed





lemma selectItems_Inl:
  "selectItems body xs = Inl rejected \<Longrightarrow> rejected = Json_error ''Invalid video range'' 400"
  by (auto simp: selectItems_def split: if_splits)

lemma POST_success:
  assumes "POST svc K body \<sigma> = Some (Json_result r, \<sigma>')"
  shows "\<exists>pid playlistItems \<sigma>1 selectedItems.
           truthy (playlistUrl body) \<and> truthy K
           \<and> (completePlaylist body \<or> (\<not> falsy (startVideo body) \<and> \<not> falsy (endVideo body)))
           \<and> extractPlaylistId (js_or (playlistUrl body) []) = Some pid
           \<and> fetchAllPlaylistItems svc pid (js_or K []) \<sigma> = Some (Inr playlistItems, \<sigma>1)
           \<and> playlistItems \<noteq> []
           \<and> selectItems body playlistItems = Inr selectedItems
           \<and> aggregate svc pid (js_or K []) playlistItems selectedItems \<sigma>1 = (Json_result r, \<sigma>')"
  using assms unfolding POST_def
  by (auto split: if_splits option.splits sum.splits prod.splits dest: selectItems_Inl)

lemma aggregate_success:
  assumes "aggregate svc pid key playlistItems selectedItems \<sigma> = (Json_result r, \<sigma>')"
  shows "\<exists>videoDetails \<sigma>1.
           fetchVideoDetails svc (map snippet_resourceId_videoId selectedItems) key \<sigma> = (Inr videoDetails, \<sigma>1)
           \<and> r = \<lparr>playlist = \<lparr>title = playlistTitle_of (fst (fetch_playlists svc pid key \<sigma>1)),
                               totalVideos = length playlistItems, videos = []\<rparr>,
                   selectedVideos = map (videoData videoDetails) selectedItems,
                   totalDuration = total_of (map (videoData videoDetails) selectedItems),
                   averageDuration = average_of (total_of (map (videoData videoDetails) selectedItems))
                                       (map (videoData videoDetails) selectedItems)\<rparr>
           \<and> \<sigma>' = snd (fetch_playlists svc pid key \<sigma>1)"
  using assms unfolding aggregate_def Let_def
  by (auto split: sum.splits prod.splits)

lemma extract_nonempty: "extractPlaylistId url = Some pid \<Longrightarrow> pid \<noteq> []"
  using extract_Some by blast

lemma POST_failure_calls:
  assumes "POST svc K body \<sigma> = Some (Json_error msg st, \<sigma>')"
  shows "\<exists>cs. calls \<sigma>' = calls \<sigma> @ cs \<and> (\<forall>c \<in> set cs. \<not> is_playlists_call c)"
proof -
  have here: "\<exists>cs. calls \<sigma> = calls \<sigma> @ cs \<and> (\<forall>c \<in> set cs. \<not> is_playlists_call c)"
    by simp
  show ?thesis
  proof (cases "\<not> truthy (playlistUrl body)
         \<or> (\<not> completePlaylist body \<and> (falsy (startVideo body) \<or> falsy (endVideo body)))
         \<or> \<not> truthy K")
    case True
    with assms have "\<sigma>' = \<sigma>" by (auto simp: POST_def split: if_splits)
    with here show ?thesis by simp
  next
    case guards: False
    show ?thesis
    proof (cases "extractPlaylistId (js_or (playlistUrl body) [])")
      case None
      with assms guards have "\<sigma>' = \<sigma>" by (auto simp: POST_def)
      with here show ?thesis by simp
    next
      case (Some pid)
      then have ne: "pid \<noteq> []" by (rule extract_nonempty)
      from assms guards Some ne obtain r \<sigma>1 where
        f: "fetchAllPlaylistItems svc pid (js_or K []) \<sigma> = Some (r, \<sigma>1)"
        by (cases "fetchAllPlaylistItems svc pid (js_or K []) \<sigma>") (auto simp: POST_def)
      from fetchAllPlaylistItems_calls [OF f] obtain cs where
        cs: "calls \<sigma>1 = calls \<sigma> @ cs" "\<forall>c \<in> set cs. \<not> is_playlists_call c" by blast
      show ?thesis
      proof (cases r)
        case (Inl m)
        with assms guards Some ne f have "\<sigma>' = \<sigma>1" by (auto simp: POST_def)
        with cs show ?thesis by blast
      next
        case (Inr playlistItems)
        show ?thesis
        proof (cases "playlistItems = []")
          case True
          with assms guards Some ne f Inr have "\<sigma>' = \<sigma>1" by (auto simp: POST_def)
          with cs show ?thesis by blast
        next
          case nonempty: False
          show ?thesis
          proof (cases "selectItems body playlistItems")
            case (Inl rejected)
            with assms guards Some ne f Inr nonempty have "\<sigma>' = \<sigma>1" by (auto simp: POST_def)
            with cs show ?thesis by blast
          next
            case sel: (Inr selectedItems)
            with assms guards Some ne f Inr nonempty have
              a: "aggregate svc pid (js_or K []) playlistItems selectedItems \<sigma>1
                    = (Json_error msg st, \<sigma>')"
              by (auto simp: POST_def)
            obtain r2 \<sigma>2 where
              d: "fetchVideoDetails svc (map snippet_resourceId_videoId selectedItems) (js_or K []) \<sigma>1
                    = (r2, \<sigma>2)"
              by (cases "fetchVideoDetails svc (map snippet_resourceId_videoId selectedItems)
                            (js_or K []) \<sigma>1")
            with a have "\<sigma>' = \<sigma>2"
              unfolding aggregate_def Let_def by (auto split: sum.splits prod.splits)
            moreover from d have
              "fetchVideoDetails_loop svc (map snippet_resourceId_videoId selectedItems) (js_or K [])
                 0 [] \<sigma>1 = (r2, \<sigma>2)"
              by (simp add: fetchVideoDetails_def)
            from fetchVideoDetails_loop_calls [OF this] obtain k where
              "calls \<sigma>2 = calls \<sigma>1 @ videos_calls (js_or K [])
                 (take k (batches (map snippet_resourceId_videoId selectedItems) 0))"
              by blast
            ultimately have
              "calls \<sigma>' = calls \<sigma> @ (cs @ videos_calls (js_or K [])
                 (take k (batches (map snippet_resourceId_videoId selectedItems) 0)))"
              using cs(1) by simp
            moreover have
              "\<forall>c \<in> set (cs @ videos_calls (js_or K [])
                 (take k (batches (map snippet_resourceId_videoId selectedItems) 0))).
                 \<not> is_playlists_call c"
              using cs(2) by (auto simp: videos_calls_def is_playlists_call_def)
            ultimately show ?thesis by blast
          qed
        qed
      qed
    qed
  qed
qed

lemma playlistTitle_of_failed: "lookup_failed resp \<Longrightarrow> playlistTitle_of resp = ''Unknown Playlist''"
  by (auto simp: lookup_failed_def playlistTitle_of_def split: response.splits option.splits list.splits)

lemma fetch_playlists_calls:
  "calls (snd (fetch_playlists svc ident key \<sigma>)) = calls \<sigma> @ [PlaylistsCall ident key]"
  by (simp add: fetch_playlists_def split: prod.splits)

section \<open>The service behind the client: lemmas\<close>

text \<open>
  The membership loop uses the service only through its listing operation and the details
  loop only through its lookup operation, so two services that agree on that operation
  give the same run.
\<close>

lemma fetchAllPlaylistItems_loop_service:
  assumes "list_playlistItems a = list_playlistItems b"
    and "fetchAllPlaylistItems_loop a pid key acc tok \<sigma> = Some y"
  shows "fetchAllPlaylistItems_loop b pid key acc tok \<sigma> = Some y"
proof -
  have "list_playlistItems a = list_playlistItems b \<longrightarrow>
        fetchAllPlaylistItems_loop b pid key acc tok \<sigma> = Some y"
  proof (rule fetchAllPlaylistItems_loop.raw_induct
         [where P = "\<lambda>a pid key acc tok \<sigma> y.
                       list_playlistItems a = list_playlistItems b \<longrightarrow>
                       fetchAllPlaylistItems_loop b pid key acc tok \<sigma> = Some y",
          OF _ assms(2)], goal_cases)
    case (1 f a pid key acc tok \<sigma> y)
    show ?case
    proof
      assume eq: "list_playlistItems a = list_playlistItems b"
      let ?t = "if truthy tok then tok else None"
      have fe: "fetch_playlistItems a pid 50 ?t key \<sigma> = fetch_playlistItems b pid 50 ?t key \<sigma>"
        by (simp add: fetch_playlistItems_def eq)
      obtain resp \<sigma>1 where f: "fetch_playlistItems b pid 50 ?t key \<sigma> = (resp, \<sigma>1)"
        by (cases "fetch_playlistItems b pid 50 ?t key \<sigma>")
      show "fetchAllPlaylistItems_loop b pid key acc tok \<sigma> = Some y"
      proof (cases resp)
        case (Throws e)
        with 1(2) f fe show ?thesis
          by (subst fetchAllPlaylistItems_loop.simps) simp
      next
        case (NotOk m)
        with 1(2) f fe show ?thesis
          by (subst fetchAllPlaylistItems_loop.simps) simp
      next
        case (Ok data)
        show ?thesis
        proof (cases "truthy (nextPageToken data)")
          case False
          with Ok 1(2) f fe show ?thesis
            by (subst fetchAllPlaylistItems_loop.simps) simp
        next
          case True
          with Ok 1(2) f fe have
            "f a pid key (acc @ items data) (nextPageToken data) \<sigma>1 = Some y" by simp
          from 1(1) [OF this] eq have
            "fetchAllPlaylistItems_loop b pid key (acc @ items data) (nextPageToken data) \<sigma>1 = Some y"
            by simp
          with True Ok f show ?thesis
            by (subst fetchAllPlaylistItems_loop.simps) simp
        qed
      qed
    qed
  qed
  with assms(1) show ?thesis by simp
qed

lemma fetchAllPlaylistItems_service:
  assumes "list_playlistItems a = list_playlistItems b"
  shows "fetchAllPlaylistItems a pid key \<sigma> = fetchAllPlaylistItems b pid key \<sigma>"
proof (cases "fetchAllPlaylistItems_loop a pid key [] None \<sigma>")
  case (Some y)
  from fetchAllPlaylistItems_loop_service [OF assms Some] Some show ?thesis
    by (simp add: fetchAllPlaylistItems_def)
next
  case None
  have "fetchAllPlaylistItems_loop b pid key [] None \<sigma> = None"
  proof (cases "fetchAllPlaylistItems_loop b pid key [] None \<sigma>")
    case (Some y)
    from fetchAllPlaylistItems_loop_service [OF assms [symmetric] Some] None show ?thesis by simp
  qed simp
  with None show ?thesis by (simp add: fetchAllPlaylistItems_def)
qed

lemma fetchVideoDetails_loop_service:
  assumes "list_videos a = list_videos b"
  shows "fetchVideoDetails_loop a ids key i acc \<sigma> = fetchVideoDetails_loop b ids key i acc \<sigma>"
  using assms
proof (induction a ids key i acc \<sigma> rule: fetchVideoDetails_loop.induct)
  case (1 a ids key i acc \<sigma>)
  have fe: "fetch_videos a = fetch_videos b"
    by (intro ext) (simp add: fetch_videos_def "1.prems")
  show ?case
  proof (cases "i < length ids")
    case False
    then show ?thesis by (simp add: fetchVideoDetails_loop.simps)
  next
    case True
    define batch where "batch = slice ids (int i) (int i + 50)"
    obtain resp \<sigma>1 where f: "fetch_videos a (join batch) key \<sigma> = (resp, \<sigma>1)"
      by (cases "fetch_videos a (join batch) key \<sigma>")
    show ?thesis
    proof (cases resp)
      case (Ok data)
      from "1.IH" [OF True batch_def f [symmetric] Ok "1.prems"]
      have "fetchVideoDetails_loop a ids key (i + 50) (acc @ video_items data) \<sigma>1
              = fetchVideoDetails_loop b ids key (i + 50) (acc @ video_items data) \<sigma>1" .
      with True f Ok show ?thesis
        by (simp add: fetchVideoDetails_loop.simps [of _ ids key i] batch_def [symmetric]
              fe [symmetric])
    next
      case (Throws e)
      with True f show ?thesis
        by (simp add: fetchVideoDetails_loop.simps [of _ ids key i] batch_def [symmetric]
              fe [symmetric])
    next
      case (NotOk m)
      with True f show ?thesis
        by (simp add: fetchVideoDetails_loop.simps [of _ ids key i] batch_def [symmetric]
              fe [symmetric])
    qed
  qed
qed

section \<open>The example evaluated\<close>

lemma demo_extract:
  "extractPlaylistId ''https://www.youtube.com/playlist?list=PL_x-1'' = Some ''PL_x-1''"
proof -
  have idc: "\<forall>c \<in> set ''PL_x-1''. id_char c"
    by (simp add: id_char_def)
  have "\<forall>k < length ''https://www.''.
          match_at (drop k (''https://www.'' @ youtube_com @ ''PL_x-1'' @ [])) = None"
    by (intro allI impI no_y_no_match) simp_all
  with idc have "extractPlaylistId (''https://www.'' @ youtube_com @ ''PL_x-1'' @ []) = Some ''PL_x-1''"
    by (intro extract_found) simp_all
  then show ?thesis by (simp add: youtube_com_def)
qed

lemma demo_fetchAll:
  "fetchAllPlaylistItems demo_catalog ''PL_x-1'' ''key'' demo_world =
     Some (Inr demo_items,
           \<lparr>service_state = (), calls = [PlaylistItemsCall ''PL_x-1'' 50 None ''key'']\<rparr>)"
proof -
  have "paged demo_catalog ''PL_x-1'' ''key'' (if truthy None then None else None)
          (service_state demo_world) [\<lparr>items = demo_items, nextPageToken = None\<rparr>] ()"
    by (simp add: demo_catalog_def truthy_def)
  from fetchAllPlaylistItems_loop_paged [OF this, of "[]"] show ?thesis
    by (simp add: fetchAllPlaylistItems_def page_calls_def truthy_def demo_world_def)
qed

lemma demo_fetchVideoDetails:
  "fetchVideoDetails demo_catalog [''v2'', ''v3''] ''key''
      \<lparr>service_state = (), calls = [PlaylistItemsCall ''PL_x-1'' 50 None ''key'']\<rparr> =
     (Inr demo_details,
      \<lparr>service_state = (),
       calls = [PlaylistItemsCall ''PL_x-1'' 50 None ''key'', VideosCall ''v2,v3'' ''key'']\<rparr>)"
  by (simp add: fetchVideoDetails_def fetchVideoDetails_loop.simps slice_def fetch_videos_def
        demo_catalog_def)

lemma demo_selectItems:
  "selectItems demo_body demo_items =
     Inr [\<lparr>snippet_title = ''second'', snippet_resourceId_videoId = ''v2''\<rparr>,
          \<lparr>snippet_title = ''third'', snippet_resourceId_videoId = ''v3''\<rparr>]"
  by (simp add: selectItems_def demo_body_def demo_items_def js_less_def to_integer_def slice_def)

lemma demo_videoData:
  "videoData demo_details \<lparr>snippet_title = ''second'', snippet_resourceId_videoId = ''v2''\<rparr> =
     \<lparr>data_id = ''v2'', data_title = ''second'', duration = ''PT1M41S'', durationSeconds = 101\<rparr>"
  "videoData demo_details \<lparr>snippet_title = ''third'', snippet_resourceId_videoId = ''v3''\<rparr> =
     \<lparr>data_id = ''v3'', data_title = ''third'', duration = ''PT2M'', durationSeconds = 120\<rparr>"
  by (simp_all add: videoData_def demo_details_def js_or_def parseDuration_def
        component_def is_digit_def parseInt_def digit_value_def)

lemma demo_average: "average_of 221 (selectedVideos demo_result) = Some 111"
proof -
  have "Math_round (of_nat 221 / of_nat 2) = 111"
    by (subst Math_round_div) simp_all
  then show ?thesis by (simp add: average_of_def demo_result_def)
qed

lemma demo_aggregate:
  "aggregate demo_catalog ''PL_x-1'' ''key'' demo_items
     [\<lparr>snippet_title = ''second'', snippet_resourceId_videoId = ''v2''\<rparr>,
      \<lparr>snippet_title = ''third'', snippet_resourceId_videoId = ''v3''\<rparr>]
     \<lparr>service_state = (), calls = [PlaylistItemsCall ''PL_x-1'' 50 None ''key'']\<rparr> =
   (Json_result demo_result, \<lparr>service_state = (), calls = demo_calls\<rparr>)"
proof -
  have t: "total_of (selectedVideos demo_result) = 221"
    by (simp add: total_of_def demo_result_def)
  have p: "fetch_playlists demo_catalog ''PL_x-1'' ''key''
             \<lparr>service_state = (),
              calls = [PlaylistItemsCall ''PL_x-1'' 50 None ''key'', VideosCall ''v2,v3'' ''key'']\<rparr>
           = (NotOk None, \<lparr>service_state = (), calls = demo_calls\<rparr>)"
    by (simp add: fetch_playlists_def demo_catalog_def demo_calls_def)
  have sv: "[\<lparr>data_id = ''v2'', data_title = ''second'', duration = ''PT1M41S'', durationSeconds = 101\<rparr>,
             \<lparr>data_id = ''v3'', data_title = ''third'', duration = ''PT2M'', durationSeconds = 120\<rparr>]
            = selectedVideos demo_result"
    by (simp add: demo_result_def)
  have l: "length demo_items = 3"
    by (simp add: demo_items_def)
  have r: "\<lparr>playlist = \<lparr>title = ''Unknown Playlist'', totalVideos = 3, videos = []\<rparr>,
            selectedVideos = selectedVideos demo_result, totalDuration = 221,
            averageDuration = Some 111\<rparr> = demo_result"
    by (simp add: demo_result_def)
  show ?thesis
    unfolding aggregate_def
    by (simp add: demo_fetchVideoDetails demo_videoData sv t demo_average p playlistTitle_of_def l r)
qed

lemma demo_POST:
  "POST demo_catalog (Some ''key'') demo_body demo_world =
     Some (Json_result demo_result, \<lparr>service_state = (), calls = demo_calls\<rparr>)"
proof -
  have u: "js_or (playlistUrl demo_body) [] = ''https://www.youtube.com/playlist?list=PL_x-1''"
    by (simp add: demo_body_def js_or_def)
  have g: "truthy (playlistUrl demo_body)" "\<not> completePlaylist demo_body"
    "\<not> falsy (startVideo demo_body)" "\<not> falsy (endVideo demo_body)" "truthy (Some ''key'')"
    "js_or (Some ''key'') [] = ''key''" "demo_items \<noteq> []"
    by (simp_all add: demo_body_def truthy_def falsy_def js_or_def demo_items_def)
  show ?thesis
    unfolding POST_def
    by (simp add: u g demo_extract demo_fetchAll demo_selectItems demo_aggregate
          del: extractPlaylistId.simps)
qed

section \<open>The claims\<close>










text \<open>
  C5. Pagination. Whenever the service answers the membership requests with the pages
  \<open>pages\<close>, each but the last with a cursor, the client returns the pages' items
  concatenated in page order and in-page order, having sent one request per page, each
  with \<^verbatim>\<open>maxResults\<close> 50, the first without a cursor and every later one with the cursor of
  the page before; pages of 50, 50 and 20 items give 120 entries. Conversely every list
  the client returns is the concatenation of such a run of pages, and every request it
  sends is a membership request with \<^verbatim>\<open>maxResults\<close> 50. (An empty cursor counts as absent.)
\<close>

theorem pagination:
  "(\<forall>pages w'.
      paged svc playlistId key None (service_state \<sigma>) pages w' \<longrightarrow>
        fetchAllPlaylistItems svc playlistId key \<sigma> =
          Some (Inr (concat (map items pages)),
                \<lparr>service_state = w',
                 calls = calls \<sigma> @ page_calls playlistId key
                                     (None # map nextPageToken (butlast pages))\<rparr>)
        \<and> length (concat (map items pages)) = sum_list (map (\<lambda>p. length (items p)) pages)
        \<and> (map (\<lambda>p. length (items p)) pages = [50, 50, 20] \<longrightarrow>
             length (concat (map items pages)) = 120))
   \<and> (\<forall>allItems \<sigma>'.
        fetchAllPlaylistItems svc playlistId key \<sigma> = Some (Inr allItems, \<sigma>') \<longrightarrow>
          (\<exists>pages. paged svc playlistId key None (service_state \<sigma>) pages (service_state \<sigma>')
                    \<and> allItems = concat (map items pages)))
   \<and> (\<forall>y. fetchAllPlaylistItems svc playlistId key \<sigma> = Some y \<longrightarrow>
          (\<exists>cs. calls (snd y) = calls \<sigma> @ cs
                 \<and> (\<forall>c \<in> set cs. \<exists>tok. c = PlaylistItemsCall playlistId 50 tok key)))"
proof (intro conjI allI impI)
  fix pages w'
  assume "paged svc playlistId key None (service_state \<sigma>) pages w'"
  then have "paged svc playlistId key (if truthy None then None else None) (service_state \<sigma>) pages w'"
    by simp
  from fetchAllPlaylistItems_loop_paged [OF this, of "[]"]
  show "fetchAllPlaylistItems svc playlistId key \<sigma> =
          Some (Inr (concat (map items pages)),
                \<lparr>service_state = w',
                 calls = calls \<sigma> @ page_calls playlistId key
                                     (None # map nextPageToken (butlast pages))\<rparr>)"
    by (simp add: fetchAllPlaylistItems_def truthy_def)
  show len: "length (concat (map items pages)) = sum_list (map (\<lambda>p. length (items p)) pages)"
    by (simp add: length_concat comp_def)
  assume "map (\<lambda>p. length (items p)) pages = [50, 50, 20]"
  with len show "length (concat (map items pages)) = 120" by simp
next
  fix allItems \<sigma>'
  assume "fetchAllPlaylistItems svc playlistId key \<sigma> = Some (Inr allItems, \<sigma>')"
  then have "fetchAllPlaylistItems_loop svc playlistId key [] None \<sigma> = Some (Inr allItems, \<sigma>')"
    by (simp add: fetchAllPlaylistItems_def)
  from fetchAllPlaylistItems_loop_pages [OF this]
  show "\<exists>pages. paged svc playlistId key None (service_state \<sigma>) pages (service_state \<sigma>')
                    \<and> allItems = concat (map items pages)"
    by (simp add: truthy_def)
next
  fix y
  assume "fetchAllPlaylistItems svc playlistId key \<sigma> = Some y"
  then have "fetchAllPlaylistItems_loop svc playlistId key [] None \<sigma> = Some y"
    by (simp add: fetchAllPlaylistItems_def)
  from fetchAllPlaylistItems_loop_calls [OF this]
  show "\<exists>cs. calls (snd y) = calls \<sigma> @ cs
                 \<and> (\<forall>c \<in> set cs. \<exists>tok. c = PlaylistItemsCall playlistId 50 tok key)"
    by (simp add: only_page_calls_def)
qed

theorem pagination_witness:
  "paged scripted_catalog ''PL'' ''key'' None demo_pages demo_pages []
   \<and> fetchAllPlaylistItems scripted_catalog ''PL'' ''key'' \<lparr>service_state = demo_pages, calls = []\<rparr> =
       Some (Inr (demo_page 50 ''a'' @ demo_page 50 ''b'' @ demo_page 20 ''c''),
             \<lparr>service_state = [],
              calls = [PlaylistItemsCall ''PL'' 50 None ''key'',
                       PlaylistItemsCall ''PL'' 50 (Some ''t1'') ''key'',
                       PlaylistItemsCall ''PL'' 50 (Some ''t2'') ''key'']\<rparr>)
   \<and> length (demo_page 50 ''a'' @ demo_page 50 ''b'' @ demo_page 20 ''c'') = 120"
proof -
  have p: "paged scripted_catalog ''PL'' ''key'' None demo_pages demo_pages []"
    by (simp add: demo_pages_def scripted_catalog_def truthy_def)
  then have "paged scripted_catalog ''PL'' ''key'' None
               (service_state \<lparr>service_state = demo_pages, calls = []\<rparr>) demo_pages []"
    by simp
  with pagination [of scripted_catalog "''PL''" "''key''" "\<lparr>service_state = demo_pages, calls = []\<rparr>"]
  have "fetchAllPlaylistItems scripted_catalog ''PL'' ''key'' \<lparr>service_state = demo_pages, calls = []\<rparr> =
          Some (Inr (concat (map items demo_pages)),
                \<lparr>service_state = [],
                 calls = calls \<lparr>service_state = demo_pages, calls = []\<rparr> @ page_calls ''PL'' ''key''
                                     (None # map nextPageToken (butlast demo_pages))\<rparr>)"
    by blast
  moreover have "length (demo_page 50 ''a'' @ demo_page 50 ''b'' @ demo_page 20 ''c'') = 120"
    by (simp add: demo_page_def)
  ultimately show ?thesis using p
    by (simp add: demo_pages_def page_calls_def)
qed



text \<open>
  C7. Join and output ordering. Whatever list of metadata the details lookup returns, in
  whatever order and with whatever entries missing, the aggregation succeeds, and the
  \<open>i\<close>-th selected video of the result has the id and the title of the \<open>i\<close>-th selected
  membership entry; its duration comes from the first metadata entry with that id, and
  when there is none it has \<open>durationSeconds = 0\<close> and the encoding \<^verbatim>\<open>PT0S\<close>.
\<close>

theorem join_and_ordering:
  assumes "fetchVideoDetails svc (map snippet_resourceId_videoId selectedItems) key \<sigma>
             = (Inr videoDetails, \<sigma>1)"
  shows "\<exists>r \<sigma>'.
     aggregate svc playlistId key playlistItems selectedItems \<sigma> = (Json_result r, \<sigma>')
     \<and> length (selectedVideos r) = length selectedItems
     \<and> (\<forall>i < length selectedItems.
           data_id (selectedVideos r ! i) = snippet_resourceId_videoId (selectedItems ! i)
           \<and> data_title (selectedVideos r ! i) = snippet_title (selectedItems ! i)
           \<and> (case find (\<lambda>v. item_id v = snippet_resourceId_videoId (selectedItems ! i)) videoDetails of
                None \<Rightarrow>
                  durationSeconds (selectedVideos r ! i) = 0
                  \<and> duration (selectedVideos r ! i) = ''PT0S''
              | Some d \<Rightarrow>
                  durationSeconds (selectedVideos r ! i) = parseDuration (contentDetails_duration d)
                  \<and> duration (selectedVideos r ! i) = js_or (Some (contentDetails_duration d)) ''PT0S'')
           \<and> (snippet_resourceId_videoId (selectedItems ! i) \<notin> item_id ` set videoDetails \<longrightarrow>
                durationSeconds (selectedVideos r ! i) = 0
                \<and> duration (selectedVideos r ! i) = ''PT0S''))"
proof -
  obtain resp \<sigma>2 where p: "fetch_playlists svc playlistId key \<sigma>1 = (resp, \<sigma>2)"
    by (cases "fetch_playlists svc playlistId key \<sigma>1")
  define r where
    "r = \<lparr>playlist = \<lparr>title = playlistTitle_of resp, totalVideos = length playlistItems, videos = []\<rparr>,
          selectedVideos = map (videoData videoDetails) selectedItems,
          totalDuration = total_of (map (videoData videoDetails) selectedItems),
          averageDuration = average_of (total_of (map (videoData videoDetails) selectedItems))
                              (map (videoData videoDetails) selectedItems)\<rparr>"
  have a: "aggregate svc playlistId key playlistItems selectedItems \<sigma> = (Json_result r, \<sigma>2)"
    unfolding aggregate_def Let_def by (simp add: assms p r_def)
  have sv: "selectedVideos r = map (videoData videoDetails) selectedItems"
    by (simp add: r_def)
  have "\<forall>i < length selectedItems.
           data_id (selectedVideos r ! i) = snippet_resourceId_videoId (selectedItems ! i)
           \<and> data_title (selectedVideos r ! i) = snippet_title (selectedItems ! i)
           \<and> (case find (\<lambda>v. item_id v = snippet_resourceId_videoId (selectedItems ! i)) videoDetails of
                None \<Rightarrow>
                  durationSeconds (selectedVideos r ! i) = 0
                  \<and> duration (selectedVideos r ! i) = ''PT0S''
              | Some d \<Rightarrow>
                  durationSeconds (selectedVideos r ! i) = parseDuration (contentDetails_duration d)
                  \<and> duration (selectedVideos r ! i) = js_or (Some (contentDetails_duration d)) ''PT0S'')
           \<and> (snippet_resourceId_videoId (selectedItems ! i) \<notin> item_id ` set videoDetails \<longrightarrow>
                durationSeconds (selectedVideos r ! i) = 0
                \<and> duration (selectedVideos r ! i) = ''PT0S'')"
  proof (intro allI impI)
    fix i assume i: "i < length selectedItems"
    define item where "item = selectedItems ! i"
    have n: "selectedVideos r ! i = videoData videoDetails item"
      using i by (simp add: sv item_def)
    have miss: "find (\<lambda>v. item_id v = snippet_resourceId_videoId item) videoDetails = None"
      if "snippet_resourceId_videoId item \<notin> item_id ` set videoDetails"
      using that by (force simp: find_None_iff)
    show "data_id (selectedVideos r ! i) = snippet_resourceId_videoId (selectedItems ! i)
           \<and> data_title (selectedVideos r ! i) = snippet_title (selectedItems ! i)
           \<and> (case find (\<lambda>v. item_id v = snippet_resourceId_videoId (selectedItems ! i)) videoDetails of
                None \<Rightarrow>
                  durationSeconds (selectedVideos r ! i) = 0
                  \<and> duration (selectedVideos r ! i) = ''PT0S''
              | Some d \<Rightarrow>
                  durationSeconds (selectedVideos r ! i) = parseDuration (contentDetails_duration d)
                  \<and> duration (selectedVideos r ! i) = js_or (Some (contentDetails_duration d)) ''PT0S'')
           \<and> (snippet_resourceId_videoId (selectedItems ! i) \<notin> item_id ` set videoDetails \<longrightarrow>
                durationSeconds (selectedVideos r ! i) = 0
                \<and> duration (selectedVideos r ! i) = ''PT0S'')"
      unfolding n item_def [symmetric]
      by (auto simp: videoData_def js_or_def miss split: option.splits)
  qed
  with a sv show ?thesis by auto
qed

theorem join_and_ordering_witness:
  "fetchVideoDetails demo_catalog (map snippet_resourceId_videoId demo_items) ''key'' demo_world
     = (Inr demo_details, \<lparr>service_state = (), calls = [VideosCall ''v1,v2,v3'' ''key'']\<rparr>)
   \<and> map item_id demo_details = [''v3'', ''v2'']
   \<and> (\<exists>r \<sigma>'.
         aggregate demo_catalog ''PL_x-1'' ''key'' demo_items demo_items demo_world
           = (Json_result r, \<sigma>')
         \<and> length (selectedVideos r) = 3
         \<and> data_id (selectedVideos r ! 0) = ''v1'' \<and> data_title (selectedVideos r ! 0) = ''first''
         \<and> durationSeconds (selectedVideos r ! 0) = 0 \<and> duration (selectedVideos r ! 0) = ''PT0S''
         \<and> data_id (selectedVideos r ! 1) = ''v2'' \<and> durationSeconds (selectedVideos r ! 1) = 101
         \<and> data_id (selectedVideos r ! 2) = ''v3'' \<and> durationSeconds (selectedVideos r ! 2) = 120)"
proof -
  have f: "fetchVideoDetails demo_catalog (map snippet_resourceId_videoId demo_items) ''key'' demo_world
     = (Inr demo_details, \<lparr>service_state = (), calls = [VideosCall ''v1,v2,v3'' ''key'']\<rparr>)"
    by (simp add: fetchVideoDetails_def fetchVideoDetails_loop.simps slice_def fetch_videos_def
          demo_catalog_def demo_world_def demo_items_def)
  have d: "parseDuration ''PT1M41S'' = 101" "parseDuration ''PT2M'' = 120"
    by (simp_all add: parseDuration_def component_def is_digit_def parseInt_def digit_value_def
          js_or_def)
  from join_and_ordering [OF f, of "''PL_x-1''" demo_items] obtain r \<sigma>' where
    a: "aggregate demo_catalog ''PL_x-1'' ''key'' demo_items demo_items demo_world
          = (Json_result r, \<sigma>')"
    and n: "length (selectedVideos r) = length demo_items"
    and i: "\<forall>i < length demo_items.
           data_id (selectedVideos r ! i) = snippet_resourceId_videoId (demo_items ! i)
           \<and> data_title (selectedVideos r ! i) = snippet_title (demo_items ! i)
           \<and> (case find (\<lambda>v. item_id v = snippet_resourceId_videoId (demo_items ! i)) demo_details of
                None \<Rightarrow>
                  durationSeconds (selectedVideos r ! i) = 0
                  \<and> duration (selectedVideos r ! i) = ''PT0S''
              | Some d \<Rightarrow>
                  durationSeconds (selectedVideos r ! i) = parseDuration (contentDetails_duration d)
                  \<and> duration (selectedVideos r ! i) = js_or (Some (contentDetails_duration d)) ''PT0S'')
           \<and> (snippet_resourceId_videoId (demo_items ! i) \<notin> item_id ` set demo_details \<longrightarrow>
                durationSeconds (selectedVideos r ! i) = 0
                \<and> duration (selectedVideos r ! i) = ''PT0S'')"
    by blast
  have l: "length demo_items = 3" by (simp add: demo_items_def)
  from i l have i0: "data_id (selectedVideos r ! 0) = ''v1'' \<and> data_title (selectedVideos r ! 0) = ''first''
         \<and> durationSeconds (selectedVideos r ! 0) = 0 \<and> duration (selectedVideos r ! 0) = ''PT0S''"
    by (simp add: demo_items_def demo_details_def)
  from i [rule_format, of 1] l have
    i1: "data_id (selectedVideos r ! 1) = ''v2'' \<and> durationSeconds (selectedVideos r ! 1) = 101"
    by (simp add: demo_items_def demo_details_def d)
  from i [rule_format, of 2] l have
    i2: "data_id (selectedVideos r ! 2) = ''v3'' \<and> durationSeconds (selectedVideos r ! 2) = 120"
    by (simp add: demo_items_def demo_details_def d)
  from a n l i0 i1 i2 have "\<exists>r \<sigma>'.
         aggregate demo_catalog ''PL_x-1'' ''key'' demo_items demo_items demo_world
           = (Json_result r, \<sigma>')
         \<and> length (selectedVideos r) = 3
         \<and> data_id (selectedVideos r ! 0) = ''v1'' \<and> data_title (selectedVideos r ! 0) = ''first''
         \<and> durationSeconds (selectedVideos r ! 0) = 0 \<and> duration (selectedVideos r ! 0) = ''PT0S''
         \<and> data_id (selectedVideos r ! 1) = ''v2'' \<and> durationSeconds (selectedVideos r ! 1) = 101
         \<and> data_id (selectedVideos r ! 2) = ''v3'' \<and> durationSeconds (selectedVideos r ! 2) = 120"
    by (intro exI [of _ r] exI [of _ \<sigma>']) simp
  moreover have "map item_id demo_details = [''v3'', ''v2'']"
    by (simp add: demo_details_def)
  ultimately show ?thesis using f by simp
qed

text \<open>
  C8. Title-lookup isolation. If a request succeeds with some title lookup, then with any
  other title lookup in its place it succeeds as well, sends the same requests, and gives
  the same result in every field but the title; when the lookup fails (the request
  throws, the response is not ok, or the body has no items) the title is
  "Unknown Playlist". A run that sends the title request always ends in a successful
  result.
\<close>

theorem title_lookup_isolation:
  "(\<forall>r \<sigma>' lookup.
      POST svc K body \<sigma> = Some (Json_result r, \<sigma>') \<longrightarrow>
        (\<exists>r' \<sigma>''.
           POST (svc\<lparr>list_playlists := lookup\<rparr>) K body \<sigma> = Some (Json_result r', \<sigma>'')
           \<and> selectedVideos r' = selectedVideos r
           \<and> totalDuration r' = totalDuration r
           \<and> averageDuration r' = averageDuration r
           \<and> totalVideos (playlist r') = totalVideos (playlist r)
           \<and> videos (playlist r') = videos (playlist r)
           \<and> calls \<sigma>'' = calls \<sigma>'
           \<and> ((\<forall>ident key w. lookup_failed (fst (lookup ident key w))) \<longrightarrow>
                title (playlist r') = ''Unknown Playlist'')))
   \<and> (\<forall>resp \<sigma>' cs.
        POST svc K body \<sigma> = Some (resp, \<sigma>') \<and> calls \<sigma>' = calls \<sigma> @ cs
        \<and> (\<exists>c \<in> set cs. is_playlists_call c) \<longrightarrow>
          (\<exists>r. resp = Json_result r))"
proof (intro conjI allI impI)
  fix r \<sigma>' lookup
  assume p: "POST svc K body \<sigma> = Some (Json_result r, \<sigma>')"
  let ?svc = "svc\<lparr>list_playlists := lookup\<rparr>"
  let ?key = "js_or K []"
  from POST_success [OF p] obtain pid playlistItems \<sigma>1 selectedItems where
    g: "truthy (playlistUrl body)" "truthy K"
       "completePlaylist body \<or> (\<not> falsy (startVideo body) \<and> \<not> falsy (endVideo body))"
    and e: "extractPlaylistId (js_or (playlistUrl body) []) = Some pid"
    and f: "fetchAllPlaylistItems svc pid ?key \<sigma> = Some (Inr playlistItems, \<sigma>1)"
    and ne: "playlistItems \<noteq> []"
    and sel: "selectItems body playlistItems = Inr selectedItems"
    and agg: "aggregate svc pid ?key playlistItems selectedItems \<sigma>1 = (Json_result r, \<sigma>')"
    by blast
  from aggregate_success [OF agg] obtain videoDetails \<sigma>2 where
    d: "fetchVideoDetails svc (map snippet_resourceId_videoId selectedItems) ?key \<sigma>1
          = (Inr videoDetails, \<sigma>2)"
    and r: "r = \<lparr>playlist = \<lparr>title = playlistTitle_of (fst (fetch_playlists svc pid ?key \<sigma>2)),
                               totalVideos = length playlistItems, videos = []\<rparr>,
                   selectedVideos = map (videoData videoDetails) selectedItems,
                   totalDuration = total_of (map (videoData videoDetails) selectedItems),
                   averageDuration = average_of (total_of (map (videoData videoDetails) selectedItems))
                                       (map (videoData videoDetails) selectedItems)\<rparr>"
    and s': "\<sigma>' = snd (fetch_playlists svc pid ?key \<sigma>2)"
    by blast
  have f': "fetchAllPlaylistItems ?svc pid ?key \<sigma> = Some (Inr playlistItems, \<sigma>1)"
    using f fetchAllPlaylistItems_service [of ?svc svc pid ?key \<sigma>] by simp
  have d': "fetchVideoDetails ?svc (map snippet_resourceId_videoId selectedItems) ?key \<sigma>1
          = (Inr videoDetails, \<sigma>2)"
    using d fetchVideoDetails_loop_service [of ?svc svc] by (simp add: fetchVideoDetails_def)
  define r' where
    "r' = \<lparr>playlist = \<lparr>title = playlistTitle_of (fst (fetch_playlists ?svc pid ?key \<sigma>2)),
                        totalVideos = length playlistItems, videos = []\<rparr>,
           selectedVideos = map (videoData videoDetails) selectedItems,
           totalDuration = total_of (map (videoData videoDetails) selectedItems),
           averageDuration = average_of (total_of (map (videoData videoDetails) selectedItems))
                               (map (videoData videoDetails) selectedItems)\<rparr>"
  define \<sigma>'' where "\<sigma>'' = snd (fetch_playlists ?svc pid ?key \<sigma>2)"
  have agg': "aggregate ?svc pid ?key playlistItems selectedItems \<sigma>1 = (Json_result r', \<sigma>'')"
    unfolding aggregate_def Let_def
    by (simp add: d' r'_def \<sigma>''_def split: prod.splits)
  from extract_nonempty [OF e] have pne: "pid \<noteq> []" .
  have post: "POST ?svc K body \<sigma> = Some (Json_result r', \<sigma>'')"
    unfolding POST_def using g ne pne by (auto simp: e f' sel agg')
  have c: "calls \<sigma>'' = calls \<sigma>'"
    by (simp add: \<sigma>''_def s' fetch_playlists_calls)
  have t: "title (playlist r') = ''Unknown Playlist''"
    if "\<forall>ident key w. lookup_failed (fst (lookup ident key w))"
  proof -
    from that have "lookup_failed (fst (fetch_playlists ?svc pid ?key \<sigma>2))"
      by (simp add: fetch_playlists_def split: prod.splits)
         (metis fst_conv)
    then show ?thesis by (simp add: r'_def playlistTitle_of_failed)
  qed
  from post c t show "\<exists>r' \<sigma>''.
           POST ?svc K body \<sigma> = Some (Json_result r', \<sigma>'')
           \<and> selectedVideos r' = selectedVideos r
           \<and> totalDuration r' = totalDuration r
           \<and> averageDuration r' = averageDuration r
           \<and> totalVideos (playlist r') = totalVideos (playlist r)
           \<and> videos (playlist r') = videos (playlist r)
           \<and> calls \<sigma>'' = calls \<sigma>'
           \<and> ((\<forall>ident key w. lookup_failed (fst (lookup ident key w))) \<longrightarrow>
                title (playlist r') = ''Unknown Playlist'')"
    by (intro exI [of _ r'] exI [of _ \<sigma>'']) (simp add: r r'_def)
next
  fix resp \<sigma>' cs
  assume a: "POST svc K body \<sigma> = Some (resp, \<sigma>') \<and> calls \<sigma>' = calls \<sigma> @ cs
        \<and> (\<exists>c \<in> set cs. is_playlists_call c)"
  show "\<exists>r. resp = Json_result r"
  proof (cases resp)
    case (Json_result r)
    then show ?thesis by simp
  next
    case (Json_error msg st)
    with a have "POST svc K body \<sigma> = Some (Json_error msg st, \<sigma>')" by simp
    from POST_failure_calls [OF this] obtain cs' where
      "calls \<sigma>' = calls \<sigma> @ cs'" "\<forall>c \<in> set cs'. \<not> is_playlists_call c" by blast
    with a show ?thesis by auto
  qed
qed

theorem title_lookup_isolation_witness:
  "POST demo_catalog (Some ''key'') demo_body demo_world =
     Some (Json_result demo_result, \<lparr>service_state = (), calls = demo_calls\<rparr>)
   \<and> lookup_failed (fst (offline_lookup ''PL_x-1'' ''key'' ()))
   \<and> (\<exists>r' \<sigma>''.
         POST (demo_catalog\<lparr>list_playlists := offline_lookup\<rparr>) (Some ''key'') demo_body demo_world
           = Some (Json_result r', \<sigma>'')
         \<and> title (playlist r') = ''Unknown Playlist''
         \<and> selectedVideos r' = selectedVideos demo_result
         \<and> totalDuration r' = 221 \<and> averageDuration r' = Some 111
         \<and> totalVideos (playlist r') = 3
         \<and> calls \<sigma>'' = demo_calls)
   \<and> is_playlists_call (PlaylistsCall ''PL_x-1'' ''key'')"
proof -
  have l: "\<forall>ident key w. lookup_failed (fst (offline_lookup ident key w))"
    by (simp add: offline_lookup_def lookup_failed_def)
  from title_lookup_isolation
    [of demo_catalog "Some ''key''" demo_body demo_world, THEN conjunct1, rule_format,
     OF demo_POST, of offline_lookup]
  obtain r' \<sigma>'' where
    "POST (demo_catalog\<lparr>list_playlists := offline_lookup\<rparr>) (Some ''key'') demo_body demo_world
       = Some (Json_result r', \<sigma>'')"
    "selectedVideos r' = selectedVideos demo_result"
    "totalDuration r' = totalDuration demo_result"
    "averageDuration r' = averageDuration demo_result"
    "totalVideos (playlist r') = totalVideos (playlist demo_result)"
    "calls \<sigma>'' = calls \<lparr>service_state = (), calls = demo_calls\<rparr>"
    "(\<forall>ident key w. lookup_failed (fst (offline_lookup ident key w))) \<longrightarrow>
       title (playlist r') = ''Unknown Playlist''"
    by blast
  with l have
    "\<exists>r' \<sigma>''.
         POST (demo_catalog\<lparr>list_playlists := offline_lookup\<rparr>) (Some ''key'') demo_body demo_world
           = Some (Json_result r', \<sigma>'')
         \<and> title (playlist r') = ''Unknown Playlist''
         \<and> selectedVideos r' = selectedVideos demo_result
         \<and> totalDuration r' = 221 \<and> averageDuration r' = Some 111
         \<and> totalVideos (playlist r') = 3
         \<and> calls \<sigma>'' = demo_calls"
    by (intro exI [of _ r'] exI [of _ \<sigma>'']) (simp add: demo_result_def)
  with demo_POST l show ?thesis
    by (simp add: is_playlists_call_def)
qed

text \<open>
  C9. Identifier extractor. For a URL in which one of the two recognised patterns is
  followed by a non-empty run \<open>v\<close> of characters of the class \<^verbatim>\<open>[A-Za-z0-9_-]\<close> that ends
  at the end of the URL or at a character outside the class, and in which no match starts
  further left (in particular when no \<^verbatim>\<open>y\<close> stands before the pattern), the result is
  exactly \<open>v\<close>. Every result is such a captured run. A URL without \<^verbatim>\<open>list=\<close>, and more
  generally one in which the expression matches at no position, gives not-found.
\<close>

theorem identifier_extractor:
  "(\<forall>pre p v rest.
       (p = youtube_com \<or> p = youtu_be) \<and> v \<noteq> [] \<and> (\<forall>c \<in> set v. id_char c)
       \<and> (rest = [] \<or> \<not> id_char (hd rest))
       \<and> (\<forall>k < length pre. match_at (drop k (pre @ p @ v @ rest)) = None)
       \<longrightarrow> extractPlaylistId (pre @ p @ v @ rest) = Some v)
   \<and> (\<forall>pre p v rest.
       (p = youtube_com \<or> p = youtu_be) \<and> v \<noteq> [] \<and> (\<forall>c \<in> set v. id_char c)
       \<and> (rest = [] \<or> \<not> id_char (hd rest)) \<and> CHR ''y'' \<notin> set pre
       \<longrightarrow> extractPlaylistId (pre @ p @ v @ rest) = Some v)
   \<and> (\<forall>url v. extractPlaylistId url = Some v \<longrightarrow>
         (\<exists>pre p rest. url = pre @ p @ v @ rest \<and> (p = youtube_com \<or> p = youtu_be) \<and> v \<noteq> []
            \<and> (\<forall>c \<in> set v. id_char c) \<and> (rest = [] \<or> \<not> id_char (hd rest))))
   \<and> (\<forall>url. \<not> occurs_in ''list='' url \<longrightarrow> extractPlaylistId url = None)
   \<and> (\<forall>url. (\<forall>k \<le> length url. match_at (drop k url) = None) \<longrightarrow> extractPlaylistId url = None)"
proof (intro conjI allI impI)
  fix pre p v rest
  assume "(p = youtube_com \<or> p = youtu_be) \<and> v \<noteq> [] \<and> (\<forall>c \<in> set v. id_char c)
       \<and> (rest = [] \<or> \<not> id_char (hd rest))
       \<and> (\<forall>k < length pre. match_at (drop k (pre @ p @ v @ rest)) = None)"
  then show "extractPlaylistId (pre @ p @ v @ rest) = Some v"
    by (intro extract_found) simp_all
next
  fix pre p v rest
  assume a: "(p = youtube_com \<or> p = youtu_be) \<and> v \<noteq> [] \<and> (\<forall>c \<in> set v. id_char c)
       \<and> (rest = [] \<or> \<not> id_char (hd rest)) \<and> CHR ''y'' \<notin> set pre"
  then have y: "CHR ''y'' \<notin> set pre" by simp
  have "\<forall>k < length pre. match_at (drop k (pre @ p @ v @ rest)) = None"
  proof (intro allI impI)
    fix k assume k: "k < length pre"
    show "match_at (drop k (pre @ p @ v @ rest)) = None"
      by (rule no_y_no_match [OF y k])
  qed
  with a show "extractPlaylistId (pre @ p @ v @ rest) = Some v"
    by (intro extract_found) simp_all
next
  fix url v
  assume "extractPlaylistId url = Some v"
  from extract_Some [OF this]
  show "\<exists>pre p rest. url = pre @ p @ v @ rest \<and> (p = youtube_com \<or> p = youtu_be) \<and> v \<noteq> []
            \<and> (\<forall>c \<in> set v. id_char c) \<and> (rest = [] \<or> \<not> id_char (hd rest))"
    by blast
next
  fix url
  assume "\<not> occurs_in ''list='' url"
  then show "extractPlaylistId url = None" by (rule extract_none)
next
  fix url
  assume "\<forall>k \<le> length url. match_at (drop k url) = None"
  then show "extractPlaylistId url = None" by (simp add: extract_None_iff)
qed

theorem identifier_extractor_witness:
  "extractPlaylistId ''https://www.youtube.com/playlist?list=PL_x-1&si=abc'' = Some ''PL_x-1''
   \<and> extractPlaylistId ''https://youtu.be/playlist?list=PL_x-1'' = Some ''PL_x-1''
   \<and> \<not> occurs_in ''list='' ''https://example.org/watch?v=abc''
   \<and> extractPlaylistId ''https://example.org/watch?v=abc'' = None"
proof -
  have idc: "\<forall>c \<in> set ''PL_x-1''. id_char c" "\<not> id_char (CHR ''&'')"
    by (simp_all add: id_char_def)
  have "extractPlaylistId (''https://www.'' @ youtube_com @ ''PL_x-1'' @ ''&si=abc'') = Some ''PL_x-1''"
    using identifier_extractor idc by (intro identifier_extractor [THEN conjunct2, THEN conjunct1, rule_format]) simp_all
  moreover have "extractPlaylistId (''https://'' @ youtu_be @ ''PL_x-1'' @ []) = Some ''PL_x-1''"
    using idc by (intro identifier_extractor [THEN conjunct2, THEN conjunct1, rule_format]) simp_all
  moreover have n: "\<not> occurs_in ''list='' ''https://example.org/watch?v=abc''"
    by (simp add: starts_with_def)
  moreover from n have "extractPlaylistId ''https://example.org/watch?v=abc'' = None"
    using identifier_extractor by blast
  ultimately show ?thesis by (simp add: youtube_com_def youtu_be_def)
qed

text \<open>
  C10. Result shape. In every successful result \<open>videos\<close> of the playlist object is empty
  and \<open>totalVideos\<close> is the length of the whole fetched membership, while the selected
  videos are as many as the selected items.
\<close>

theorem result_shape:
  assumes "POST svc K body \<sigma> = Some (Json_result r, \<sigma>')"
  shows "videos (playlist r) = []
    \<and> (\<exists>pid membership \<sigma>1 selected.
          extractPlaylistId (js_or (playlistUrl body) []) = Some pid
          \<and> fetchAllPlaylistItems svc pid (js_or K []) \<sigma> = Some (Inr membership, \<sigma>1)
          \<and> selectItems body membership = Inr selected
          \<and> totalVideos (playlist r) = length membership
          \<and> length (selectedVideos r) = length selected)"
proof -
  from POST_success [OF assms] obtain pid playlistItems \<sigma>1 selectedItems where
    e: "extractPlaylistId (js_or (playlistUrl body) []) = Some pid"
    and f: "fetchAllPlaylistItems svc pid (js_or K []) \<sigma> = Some (Inr playlistItems, \<sigma>1)"
    and sel: "selectItems body playlistItems = Inr selectedItems"
    and agg: "aggregate svc pid (js_or K []) playlistItems selectedItems \<sigma>1 = (Json_result r, \<sigma>')"
    by blast
  from aggregate_success [OF agg] obtain videoDetails \<sigma>2 where
    r: "r = \<lparr>playlist = \<lparr>title = playlistTitle_of (fst (fetch_playlists svc pid (js_or K []) \<sigma>2)),
                               totalVideos = length playlistItems, videos = []\<rparr>,
                   selectedVideos = map (videoData videoDetails) selectedItems,
                   totalDuration = total_of (map (videoData videoDetails) selectedItems),
                   averageDuration = average_of (total_of (map (videoData videoDetails) selectedItems))
                                       (map (videoData videoDetails) selectedItems)\<rparr>"
    by blast
  have "videos (playlist r) = []" "totalVideos (playlist r) = length playlistItems"
    "length (selectedVideos r) = length selectedItems"
    by (simp_all add: r)
  with e f sel show ?thesis by blast
qed

theorem result_shape_witness:
  "POST demo_catalog (Some ''key'') demo_body demo_world =
     Some (Json_result demo_result, \<lparr>service_state = (), calls = demo_calls\<rparr>)
   \<and> videos (playlist demo_result) = []
   \<and> totalVideos (playlist demo_result) = 3
   \<and> length demo_items = 3
   \<and> length (selectedVideos demo_result) = 2"
proof -
  from result_shape [OF demo_POST] have "videos (playlist demo_result) = []" by blast
  then show ?thesis using demo_POST
    by (simp add: demo_result_def demo_items_def)
qed

end
